theory Spec2Isabelle
  imports Complex_Main
begin

section \<open>Python values\<close>

text \<open>
  The extractor of \<^verbatim>\<open>src/openapi/extract.py\<close> works on the tree that
  \<^verbatim>\<open>json.load\<close> returns and on the dictionaries it builds itself. A value is
  \<^verbatim>\<open>None\<close>, a \<^verbatim>\<open>bool\<close>, an \<^verbatim>\<open>int\<close>, a \<^verbatim>\<open>float\<close>, a \<^verbatim>\<open>str\<close>, a
  \<^verbatim>\<open>list\<close> or a \<^verbatim>\<open>dict\<close>. A dictionary keeps insertion order, so it is an
  association list; a loaded document has string keys only, but the code itself may
  store a parameter name of any hashable kind as a key, so keys are values too.
  A finite float is its rational value (the non-finite floats are not represented);
  a string is a list of 8-bit characters.
\<close>

datatype pyval =
    PNone
  | PBool bool
  | PInt int
  | PFloat rat
  | PStr string
  | PList "pyval list"
  | PDict "(pyval \<times> pyval) list"

datatype error =
    ValueError string
  | TypeError
  | AttributeError
  | KeyError
  | IndexError

text \<open>Truth value testing (\<^verbatim>\<open>if x:\<close>, \<^verbatim>\<open>not x\<close>).\<close>

fun truthy :: "pyval \<Rightarrow> bool" where
  "truthy PNone = False"
| "truthy (PBool b) = b"
| "truthy (PInt i) = (i \<noteq> 0)"
| "truthy (PFloat q) = (q \<noteq> 0)"
| "truthy (PStr s) = (s \<noteq> [])"
| "truthy (PList xs) = (xs \<noteq> [])"
| "truthy (PDict kvs) = (kvs \<noteq> [])"

text \<open>
  \<^verbatim>\<open>isinstance\<close>. In Python \<^verbatim>\<open>bool\<close> is a subclass of \<^verbatim>\<open>int\<close>, so
  \<^verbatim>\<open>isinstance(True, int)\<close> holds.
\<close>

fun isinstance_dict :: "pyval \<Rightarrow> bool" where
  "isinstance_dict (PDict kvs) = True"
| "isinstance_dict v = False"

fun isinstance_list :: "pyval \<Rightarrow> bool" where
  "isinstance_list (PList xs) = True"
| "isinstance_list v = False"

fun isinstance_str :: "pyval \<Rightarrow> bool" where
  "isinstance_str (PStr s) = True"
| "isinstance_str v = False"

fun isinstance_bool :: "pyval \<Rightarrow> bool" where
  "isinstance_bool (PBool b) = True"
| "isinstance_bool v = False"

fun isinstance_int :: "pyval \<Rightarrow> bool" where
  "isinstance_int (PInt i) = True"
| "isinstance_int (PBool b) = True"
| "isinstance_int v = False"

fun isinstance_float :: "pyval \<Rightarrow> bool" where
  "isinstance_float (PFloat q) = True"
| "isinstance_float v = False"

text \<open>
  Dictionary keys. Lists and dictionaries are unhashable; the numeric kinds compare by
  value across kinds (\<^verbatim>\<open>1 == True == 1.0\<close>), every other key only with its own kind.
\<close>

fun hashable :: "pyval \<Rightarrow> bool" where
  "hashable (PList xs) = False"
| "hashable (PDict kvs) = False"
| "hashable v = True"

fun py_num :: "pyval \<Rightarrow> rat option" where
  "py_num (PBool b) = Some (if b then 1 else 0)"
| "py_num (PInt i) = Some (of_int i)"
| "py_num (PFloat q) = Some q"
| "py_num v = None"

definition key_eq :: "pyval \<Rightarrow> pyval \<Rightarrow> bool" where
  "key_eq a b =
     (case py_num a of
        Some x \<Rightarrow> (case py_num b of Some y \<Rightarrow> x = y | None \<Rightarrow> False)
      | None \<Rightarrow> (case py_num b of Some y \<Rightarrow> False | None \<Rightarrow> a = b))"

fun dict_get :: "(pyval \<times> pyval) list \<Rightarrow> pyval \<Rightarrow> pyval option" where
  "dict_get [] k = None"
| "dict_get ((k', v) # kvs) k = (if key_eq k' k then Some v else dict_get kvs k)"

definition has_key :: "(pyval \<times> pyval) list \<Rightarrow> pyval \<Rightarrow> bool" where
  "has_key kvs k = (dict_get kvs k \<noteq> None)"

text \<open>
  \<^verbatim>\<open>d[k] = v\<close>: an existing key keeps its place and its key object, a new key goes to
  the end.
\<close>

fun dict_set :: "(pyval \<times> pyval) list \<Rightarrow> pyval \<Rightarrow> pyval \<Rightarrow> (pyval \<times> pyval) list" where
  "dict_set [] k v = [(k, v)]"
| "dict_set ((k', v') # kvs) k v =
     (if key_eq k' k then (k', v) # kvs else (k', v') # dict_set kvs k v)"

text \<open>\<^verbatim>\<open>d.get(key, default)\<close> on a dictionary.\<close>

definition dict_get_default :: "(pyval \<times> pyval) list \<Rightarrow> pyval \<Rightarrow> pyval \<Rightarrow> pyval" where
  "dict_get_default kvs k d = (case dict_get kvs k of Some v \<Rightarrow> v | None \<Rightarrow> d)"

text \<open>
  \<^verbatim>\<open>safe_get\<close> (lines 183-192): \<^verbatim>\<open>obj.get(key, default)\<close> on a dictionary, the
  default on anything else.
\<close>

definition safe_get :: "pyval \<Rightarrow> string \<Rightarrow> pyval \<Rightarrow> pyval" where
  "safe_get obj key dflt =
     (case obj of PDict kvs \<Rightarrow> dict_get_default kvs (PStr key) dflt | _ \<Rightarrow> dflt)"

text \<open>
  \<^verbatim>\<open>x[0]\<close>: the first item of a list, the first character of a string, the value
  under the key \<^verbatim>\<open>0\<close> of a dictionary; every other kind is not subscriptable.
\<close>

fun py_first :: "pyval \<Rightarrow> error + pyval" where
  "py_first (PList []) = Inl IndexError"
| "py_first (PList (x # xs)) = Inr x"
| "py_first (PStr []) = Inl IndexError"
| "py_first (PStr (c # cs)) = Inr (PStr [c])"
| "py_first (PDict kvs) = (case dict_get kvs (PInt 0) of Some v \<Rightarrow> Inr v | None \<Rightarrow> Inl KeyError)"
| "py_first v = Inl TypeError"

section \<open>The schema normalizer\<close>

text \<open>
  Lines 289-310 of \<^verbatim>\<open>convert_openapi_schema_to_json_schema\<close>: the declared type when
  it is truthy, otherwise the type inferred from the structure. In the \<^verbatim>\<open>enum\<close>
  branch nothing is assigned when the enum is falsy or its first value is of no
  listed kind, so the falsy declared type (\<^verbatim>\<open>None\<close> when the key is absent) stays.
  The test for \<^verbatim>\<open>(int, float)\<close> comes before the test for \<^verbatim>\<open>bool\<close>.
\<close>

definition infer_schema_type :: "(pyval \<times> pyval) list \<Rightarrow> error + pyval" where
  "infer_schema_type schema =
     (let schema_type = safe_get (PDict schema) ''type'' PNone in
      if truthy schema_type then Inr schema_type
      else if has_key schema (PStr ''properties'') \<or> has_key schema (PStr ''additionalProperties'')
        then Inr (PStr ''object'')
      else if has_key schema (PStr ''items'') then Inr (PStr ''array'')
      else if has_key schema (PStr ''enum'') then
        (let enum_values = dict_get_default schema (PStr ''enum'') (PList []) in
         if truthy enum_values then
           (case py_first enum_values of
              Inl e \<Rightarrow> Inl e
            | Inr first_val \<Rightarrow>
                if isinstance_str first_val then Inr (PStr ''string'')
                else if isinstance_int first_val \<or> isinstance_float first_val then Inr (PStr ''number'')
                else if isinstance_bool first_val then Inr (PStr ''boolean'')
                else Inr schema_type)
         else Inr schema_type)
      else Inr (PStr ''string''))"

text \<open>Copy a field into the result when \<^verbatim>\<open>if value:\<close> holds (lines 314-327, 342-344).\<close>

definition copy_if_truthy ::
  "(pyval \<times> pyval) list \<Rightarrow> string \<Rightarrow> pyval \<Rightarrow> (pyval \<times> pyval) list \<Rightarrow> (pyval \<times> pyval) list" where
  "copy_if_truthy schema key dflt json_schema =
     (let value = safe_get (PDict schema) key dflt in
      if truthy value then dict_set json_schema (PStr key) value else json_schema)"

text \<open>The constraint loop (lines 355-358): copied when \<^verbatim>\<open>value is not None\<close>.\<close>

definition copy_constraints ::
  "(pyval \<times> pyval) list \<Rightarrow> (pyval \<times> pyval) list \<Rightarrow> (pyval \<times> pyval) list" where
  "copy_constraints schema json_schema =
     foldl (\<lambda>acc constraint.
              (let value = safe_get (PDict schema) constraint PNone in
               if value \<noteq> PNone then dict_set acc (PStr constraint) value else acc))
       json_schema
       [''minimum'', ''maximum'', ''minLength'', ''maxLength'', ''pattern'', ''default'', ''example'']"

definition string_schema :: pyval where
  "string_schema = PDict [(PStr ''type'', PStr ''string'')]"

text \<open>
  The object branch (lines 335-352) with the recursive call as a parameter.
  \<^verbatim>\<open>properties.items()\<close> raises on a truthy value that is not a dictionary.
\<close>

definition convert_object_fields ::
  "(pyval \<Rightarrow> pyval) \<Rightarrow> (pyval \<times> pyval) list \<Rightarrow> (pyval \<times> pyval) list
     \<Rightarrow> error + (pyval \<times> pyval) list" where
  "convert_object_fields conv schema json_schema =
     (let properties = safe_get (PDict schema) ''properties'' (PDict []) in
      case (if truthy properties then
              (case properties of
                 PDict props \<Rightarrow>
                   Inr (dict_set json_schema (PStr ''properties'')
                          (PDict (foldl (\<lambda>acc (prop_name, prop_schema).
                                     dict_set acc prop_name (conv prop_schema)) [] props)))
               | _ \<Rightarrow> Inl AttributeError)
            else Inr json_schema) of
        Inl e \<Rightarrow> Inl e
      | Inr js1 \<Rightarrow>
          (let js2 = copy_if_truthy schema ''required'' (PList []) js1;
               additional_props = safe_get (PDict schema) ''additionalProperties'' PNone
           in if additional_props \<noteq> PNone then
                (if isinstance_dict additional_props
                 then Inr (dict_set js2 (PStr ''additionalProperties'') (conv additional_props))
                 else Inr (dict_set js2 (PStr ''additionalProperties'') additional_props))
              else Inr js2))"

text \<open>The body of the \<^verbatim>\<open>try\<close> block (lines 286-360).\<close>

definition convert_body :: "(pyval \<Rightarrow> pyval) \<Rightarrow> (pyval \<times> pyval) list \<Rightarrow> error + pyval" where
  "convert_body conv schema =
     (case infer_schema_type schema of
        Inl e \<Rightarrow> Inl e
      | Inr schema_type \<Rightarrow>
          (let js0 = [(PStr ''type'', schema_type)];
               js1 = copy_if_truthy schema ''description'' PNone js0;
               js2 = copy_if_truthy schema ''enum'' PNone js1;
               js3 = copy_if_truthy schema ''format'' PNone js2
           in case (if schema_type = PStr ''array'' then
                      Inr (dict_set js3 (PStr ''items'')
                             (conv (safe_get (PDict schema) ''items'' (PDict []))))
                    else if schema_type = PStr ''object'' then
                      convert_object_fields conv schema js3
                    else Inr js3) of
                Inl e \<Rightarrow> Inl e
              | Inr js4 \<Rightarrow> Inr (PDict (copy_constraints schema js4))))"

subsection \<open>The recursion\<close>

text \<open>
  The recursive calls are on the values stored in the schema (an item schema, a property
  schema, a nested \<^verbatim>\<open>additionalProperties\<close> schema) or, for an array without
  \<^verbatim>\<open>items\<close>, on the empty default; all are smaller than the schema.
\<close>

lemma dict_get_size: "dict_get kvs k = Some v \<Longrightarrow> size v < size (PDict kvs)"
  by (induction kvs) (auto split: if_splits)

lemma in_dict_size: "(k, v) \<in> set kvs \<Longrightarrow> size v < size (PDict kvs)"
  by (induction kvs) auto

lemma safe_get_size:
  "kvs \<noteq> [] \<Longrightarrow> size (safe_get (PDict kvs) key (PDict [])) < size (PDict kvs)"
  by (cases kvs) (auto simp: safe_get_def dict_get_default_def split: option.splits dest!: dict_get_size)

lemma safe_get_cases:
  "safe_get (PDict kvs) key d = d \<or> size (safe_get (PDict kvs) key d) < size (PDict kvs)"
  by (auto simp: safe_get_def dict_get_default_def split: option.splits dest!: dict_get_size)

lemma infer_schema_type_nonempty: "infer_schema_type [] = Inr t \<Longrightarrow> t = PStr ''string''"
  by (simp add: infer_schema_type_def safe_get_def dict_get_default_def has_key_def)

lemma convert_object_fields_cong:
  assumes "\<And>v. size v < size (PDict schema) \<Longrightarrow> f v = g v"
  shows "convert_object_fields f schema js = convert_object_fields g schema js"
proof -
  have props: "foldl (\<lambda>acc (prop_name, prop_schema). dict_set acc prop_name (f prop_schema)) [] props
      = foldl (\<lambda>acc (prop_name, prop_schema). dict_set acc prop_name (g prop_schema)) [] props"
    if "safe_get (PDict schema) ''properties'' (PDict []) = PDict props" "props \<noteq> []" for props
  proof (rule foldl_cong[OF refl refl])
    fix a x assume "x \<in> set props"
    obtain k v where x: "x = (k, v)" by (cases x)
    have "size v < size (PDict props)" using \<open>x \<in> set props\<close> x in_dict_size by blast
    moreover have "size (PDict props) < size (PDict schema)"
      using safe_get_cases[of schema "''properties''" "PDict []"] that by auto
    ultimately have "f v = g v" using assms by simp
    then show "(case x of (prop_name, prop_schema) \<Rightarrow> dict_set a prop_name (f prop_schema))
       = (case x of (prop_name, prop_schema) \<Rightarrow> dict_set a prop_name (g prop_schema))"
      using x by simp
  qed
  have addl: "f (safe_get (PDict schema) ''additionalProperties'' PNone)
            = g (safe_get (PDict schema) ''additionalProperties'' PNone)"
    if "safe_get (PDict schema) ''additionalProperties'' PNone \<noteq> PNone"
    using safe_get_cases[of schema "''additionalProperties''" PNone] that assms by auto
  show ?thesis
    unfolding convert_object_fields_def Let_def
    using props addl by (auto split: pyval.splits sum.splits)
qed

lemma convert_body_cong [fundef_cong]:
  assumes "schema = schema'" and "\<And>v. size v < size (PDict schema') \<Longrightarrow> f v = g v"
  shows "convert_body f schema = convert_body g schema'"
proof -
  have items: "f (safe_get (PDict schema') ''items'' (PDict [])) = g (safe_get (PDict schema') ''items'' (PDict []))"
    if "infer_schema_type schema' = Inr (PStr ''array'')"
  proof -
    have "schema' \<noteq> []" using that infer_schema_type_nonempty by fastforce
    then show ?thesis using safe_get_size assms(2) by blast
  qed
  show ?thesis
    unfolding convert_body_def Let_def assms(1)
    using items convert_object_fields_cong[of schema' f g, OF assms(2)]
    by (auto split: sum.splits)
qed

text \<open>
  \<^verbatim>\<open>convert_openapi_schema_to_json_schema\<close> (lines 278-364): anything that is not a
  dictionary, and any exception in the body, gives \<^verbatim>\<open>{"type": "string"}\<close>.
\<close>

function convert_openapi_schema_to_json_schema :: "pyval \<Rightarrow> pyval" where
  "convert_openapi_schema_to_json_schema schema =
     (case schema of
        PDict kvs \<Rightarrow>
          (case convert_body convert_openapi_schema_to_json_schema kvs of
             Inl e \<Rightarrow> string_schema
           | Inr json_schema \<Rightarrow> json_schema)
      | _ \<Rightarrow> string_schema)"
  by pat_completeness auto
termination
  by (relation "measure size") auto

declare convert_openapi_schema_to_json_schema.simps [simp del]

text \<open>The \<^verbatim>\<open>type\<close> entry of a converted node.\<close>

definition result_type :: "pyval \<Rightarrow> pyval option" where
  "result_type json_schema = (case json_schema of PDict kvs \<Rightarrow> dict_get kvs (PStr ''type'') | _ \<Rightarrow> None)"

text \<open>
  A \<^verbatim>\<open>properties\<close> value on which \<^verbatim>\<open>properties.items()\<close> raises: truthy and not a
  dictionary.
\<close>

definition malformed_properties :: "(pyval \<times> pyval) list \<Rightarrow> bool" where
  "malformed_properties schema =
     (let properties = safe_get (PDict schema) ''properties'' (PDict [])
      in truthy properties \<and> \<not> isinstance_dict properties)"

section \<open>The reference resolver\<close>

text \<open>
  The extractor object: the document, the base-URL override (\<^verbatim>\<open>None\<close> or a string)
  and, for the formatted messages, the text that Python's built-in \<^verbatim>\<open>str()\<close> gives
  for a value that is not a string, which is taken as given. The cache
  \<^verbatim>\<open>self.resolved_refs\<close> is the state that every operation takes and returns; its
  keys are ref strings.
\<close>

record extractor =
  spec :: pyval
  base_url :: "string option"
  py_str :: "pyval \<Rightarrow> string"

type_synonym cache = "string \<Rightarrow> pyval option"

definition format_value :: "extractor \<Rightarrow> pyval \<Rightarrow> string" where
  "format_value self v = (case v of PStr s \<Rightarrow> s | _ \<Rightarrow> py_str self v)"

definition placeholder :: "string \<Rightarrow> pyval" where
  "placeholder text = PDict [(PStr ''type'', PStr ''object''), (PStr ''description'', PStr text)]"

definition circular_placeholder :: "string \<Rightarrow> pyval" where
  "circular_placeholder ref_path = placeholder (''Circular reference to '' @ ref_path)"

definition unresolved_placeholder :: "string \<Rightarrow> pyval" where
  "unresolved_placeholder ref_path = placeholder (''Unresolved reference: '' @ ref_path)"

definition failed_placeholder :: "extractor \<Rightarrow> pyval \<Rightarrow> pyval" where
  "failed_placeholder self ref = placeholder (''Failed to resolve: '' @ format_value self ref)"

text \<open>\<^verbatim>\<open>s.split(sep)\<close> for a one-character separator: empty pieces are kept.\<close>

fun split_on :: "char \<Rightarrow> string \<Rightarrow> string list" where
  "split_on c [] = [[]]"
| "split_on c (x # xs) =
     (if x = c then [] # split_on c xs
      else (case split_on c xs of [] \<Rightarrow> [[x]] | w # ws \<Rightarrow> (x # w) # ws))"

text \<open>
  The walk through the document (lines 124-133). \<^verbatim>\<open>None\<close> stands for the
  \<^verbatim>\<open>ValueError\<close> that the loop raises on a missing segment and the handler around it
  turns into the placeholder for an unresolved reference.
\<close>

fun navigate :: "pyval \<Rightarrow> string list \<Rightarrow> pyval option" where
  "navigate current [] = Some current"
| "navigate current (part # parts) =
     (case current of
        PDict kvs \<Rightarrow>
          (case dict_get kvs (PStr part) of
             Some v \<Rightarrow> navigate v parts
           | None \<Rightarrow> None)
      | _ \<Rightarrow> None)"

text \<open>
  \<^verbatim>\<open>resolve_reference\<close> (lines 99-138), with the call of \<^verbatim>\<open>dereference_object\<close>
  as a parameter. A result \<^verbatim>\<open>None\<close> means that the call did not return. The two
  membership tests raise \<^verbatim>\<open>TypeError\<close> on an unhashable ref; \<^verbatim>\<open>startswith\<close> exists
  on strings only. Every exception leaves the cache as it was.
\<close>

definition resolve_reference_with ::
  "(cache \<Rightarrow> pyval \<Rightarrow> string set \<Rightarrow> nat \<Rightarrow> (pyval \<times> cache) option)
     \<Rightarrow> extractor \<Rightarrow> cache \<Rightarrow> pyval \<Rightarrow> string set \<Rightarrow> ((error + pyval) \<times> cache) option" where
  "resolve_reference_with deref self resolved_refs ref_path visited =
     (case ref_path of
        PStr r \<Rightarrow>
          if r \<in> visited then Some (Inr (circular_placeholder r), resolved_refs)
          else (case resolved_refs r of
                  Some cached \<Rightarrow> Some (Inr cached, resolved_refs)
                | None \<Rightarrow>
                    if take 2 r \<noteq> ''#/''
                    then Some (Inl (ValueError (''Only internal references supported: '' @ r)),
                               resolved_refs)
                    else (case navigate (spec self) (split_on CHR ''/'' (drop 2 r)) of
                            None \<Rightarrow> Some (Inr (unresolved_placeholder r), resolved_refs)
                          | Some current \<Rightarrow>
                              (case deref resolved_refs current (insert r visited) 0 of
                                 None \<Rightarrow> None
                               | Some (resolved, resolved_refs') \<Rightarrow>
                                   Some (Inr resolved, resolved_refs'(r \<mapsto> resolved)))))
      | PList xs \<Rightarrow> Some (Inl TypeError, resolved_refs)
      | PDict kvs \<Rightarrow> Some (Inl TypeError, resolved_refs)
      | _ \<Rightarrow> Some (Inl AttributeError, resolved_refs))"

text \<open>The two loops of \<^verbatim>\<open>dereference_object\<close> (lines 161-168 and 171-178).\<close>

fun deref_items ::
  "(cache \<Rightarrow> pyval \<Rightarrow> (pyval \<times> cache) option) \<Rightarrow> cache \<Rightarrow> (pyval \<times> pyval) list
     \<Rightarrow> (pyval \<times> pyval) list \<Rightarrow> ((pyval \<times> pyval) list \<times> cache) option" where
  "deref_items d resolved_refs [] result = Some (result, resolved_refs)"
| "deref_items d resolved_refs ((key, val) # kvs) result =
     (case d resolved_refs val of
        None \<Rightarrow> None
      | Some (val', resolved_refs') \<Rightarrow> deref_items d resolved_refs' kvs (dict_set result key val'))"

fun deref_list ::
  "(cache \<Rightarrow> pyval \<Rightarrow> (pyval \<times> cache) option) \<Rightarrow> cache \<Rightarrow> pyval list
     \<Rightarrow> pyval list \<Rightarrow> (pyval list \<times> cache) option" where
  "deref_list d resolved_refs [] result = Some (result, resolved_refs)"
| "deref_list d resolved_refs (item # items) result =
     (case d resolved_refs item of
        None \<Rightarrow> None
      | Some (item', resolved_refs') \<Rightarrow> deref_list d resolved_refs' items (result @ [item']))"

text \<open>
  \<^verbatim>\<open>dereference_object\<close> (lines 140-181). The first argument bounds the nesting of
  calls: \<^verbatim>\<open>None\<close> is returned when it is used up, so that returning is a property to
  prove. The function has no raising operation outside the \<^verbatim>\<open>try\<close> around
  \<^verbatim>\<open>resolve_reference\<close>, so the handlers around its recursive calls never run and it
  returns a value, not an error. The interpreter's limit on the call stack is not
  modelled.
\<close>

fun dereference_object ::
  "nat \<Rightarrow> extractor \<Rightarrow> cache \<Rightarrow> pyval \<Rightarrow> string set \<Rightarrow> nat \<Rightarrow> (pyval \<times> cache) option" where
  "dereference_object 0 self resolved_refs obj visited depth = None"
| "dereference_object (Suc fuel) self resolved_refs obj visited depth =
     (if depth > 50 then Some (obj, resolved_refs)
      else (case obj of
              PDict kvs \<Rightarrow>
                (case dict_get kvs (PStr ''$ref'') of
                   Some ref \<Rightarrow>
                     (case resolve_reference_with (dereference_object fuel self)
                             self resolved_refs ref visited of
                        None \<Rightarrow> None
                      | Some (Inr resolved, resolved_refs') \<Rightarrow> Some (resolved, resolved_refs')
                      | Some (Inl e, resolved_refs') \<Rightarrow>
                          Some (failed_placeholder self ref, resolved_refs'))
                 | None \<Rightarrow>
                     (case deref_items
                             (\<lambda>c v. dereference_object fuel self c v visited (depth + 1))
                             resolved_refs kvs [] of
                        None \<Rightarrow> None
                      | Some (result, resolved_refs') \<Rightarrow> Some (PDict result, resolved_refs')))
            | PList xs \<Rightarrow>
                (case deref_list
                        (\<lambda>c v. dereference_object fuel self c v visited (depth + 1))
                        resolved_refs xs [] of
                   None \<Rightarrow> None
                 | Some (result, resolved_refs') \<Rightarrow> Some (PList result, resolved_refs'))
            | _ \<Rightarrow> Some (obj, resolved_refs)))"

definition resolve_reference ::
  "nat \<Rightarrow> extractor \<Rightarrow> cache \<Rightarrow> pyval \<Rightarrow> string set \<Rightarrow> ((error + pyval) \<times> cache) option" where
  "resolve_reference fuel self = resolve_reference_with (dereference_object fuel self) self"

text \<open>
  A top-level call \<^verbatim>\<open>self.dereference_object(obj)\<close> (empty chain, depth 0). The
  refs that a call can meet are the string values under \<^verbatim>\<open>$ref\<close> in the object and
  in the document; their number and the sizes of both bound the nesting of calls, and
  \<open>enough_fuel\<close> is such a bound (lemma \<open>dereference_returns\<close>
  below), so the fallback of \<open>dereference\<close> is never taken.
\<close>

fun refs_of :: "pyval \<Rightarrow> string list" where
  "refs_of (PDict kvs) =
     (case dict_get kvs (PStr ''$ref'') of Some (PStr r) \<Rightarrow> [r] | _ \<Rightarrow> [])
       @ concat (map (\<lambda>(k, v). refs_of v) kvs)"
| "refs_of (PList xs) = concat (map refs_of xs)"
| "refs_of v = []"

definition enough_fuel :: "extractor \<Rightarrow> pyval \<Rightarrow> nat" where
  "enough_fuel self obj =
     size obj + 1 + (length (refs_of (spec self)) + length (refs_of obj)) * (size (spec self) + 1)"

definition dereference :: "extractor \<Rightarrow> cache \<Rightarrow> pyval \<Rightarrow> pyval \<times> cache" where
  "dereference self resolved_refs obj =
     (case dereference_object (enough_fuel self obj) self resolved_refs obj {} 0 of
        Some r \<Rightarrow> r
      | None \<Rightarrow> (obj, resolved_refs))"

subsection \<open>Notions used in the statements\<close>

text \<open>
  A bound on the nesting of calls of \<^verbatim>\<open>dereference_object\<close>: the size of the object,
  and for every ref of the object or the document that is not yet on the chain, the
  size of the document.
\<close>

definition nesting_bound :: "extractor \<Rightarrow> pyval \<Rightarrow> string set \<Rightarrow> nat" where
  "nesting_bound self obj visited =
     size obj + 1
       + card ((set (refs_of (spec self)) \<union> set (refs_of obj)) - visited) * (size (spec self) + 1)"

text \<open>
  A ref that \<^verbatim>\<open>resolve_reference\<close> finds in the document, and the relation between the
  cache before and after a call with the chain \<open>visited\<close>: entries stay as they are,
  the refs on the chain get no entry, and every new entry is for a ref that was found.
\<close>

definition resolvable :: "extractor \<Rightarrow> string \<Rightarrow> bool" where
  "resolvable self r =
     (take 2 r = ''#/'' \<and> navigate (spec self) (split_on CHR ''/'' (drop 2 r)) \<noteq> None)"

definition cache_extends :: "extractor \<Rightarrow> string set \<Rightarrow> cache \<Rightarrow> cache \<Rightarrow> bool" where
  "cache_extends self visited c c' =
     ((\<forall>r v. c r = Some v \<longrightarrow> c' r = Some v)
      \<and> (\<forall>r \<in> visited. c' r = c r)
      \<and> (\<forall>r. c r = None \<and> c' r \<noteq> None \<longrightarrow> resolvable self r))"

text \<open>A document with the cycle A, B, A.\<close>

definition cyclic_doc :: extractor where
  "cyclic_doc =
     \<lparr>spec = PDict [(PStr ''A'', PDict [(PStr ''b'', PDict [(PStr ''$ref'', PStr ''#/B'')])]),
                    (PStr ''B'', PDict [(PStr ''a'', PDict [(PStr ''$ref'', PStr ''#/A'')])])],
      base_url = None,
      py_str = (\<lambda>v. [])\<rparr>"

section \<open>Strings\<close>

definition lowercase_letters :: string where
  "lowercase_letters = ''abcdefghijklmnopqrstuvwxyz''"

definition uppercase_letters :: string where
  "uppercase_letters = ''ABCDEFGHIJKLMNOPQRSTUVWXYZ''"

definition is_alnum :: "char \<Rightarrow> bool" where
  "is_alnum c = (c \<in> set (lowercase_letters @ uppercase_letters @ ''0123456789''))"

definition lower_char :: "char \<Rightarrow> char" where
  "lower_char c = (case map_of (zip uppercase_letters lowercase_letters) c of Some l \<Rightarrow> l | None \<Rightarrow> c)"

definition upper_char :: "char \<Rightarrow> char" where
  "upper_char c = (case map_of (zip lowercase_letters uppercase_letters) c of Some u \<Rightarrow> u | None \<Rightarrow> c)"

text \<open>\<^verbatim>\<open>s.rstrip('/')\<close>: every trailing occurrence goes.\<close>

definition rstrip :: "char \<Rightarrow> string \<Rightarrow> string" where
  "rstrip c s = rev (dropWhile (\<lambda>x. x = c) (rev s))"

text \<open>\<^verbatim>\<open>needle in text\<close> on two strings: the substring test.\<close>

fun is_substring :: "string \<Rightarrow> string \<Rightarrow> bool" where
  "is_substring needle [] = (needle = [])"
| "is_substring needle (x # xs) =
     (take (length needle) (x # xs) = needle \<or> is_substring needle xs)"

text \<open>\<^verbatim>\<open>str(n)\<close> of a natural number.\<close>

definition digit_char :: "nat \<Rightarrow> char" where
  "digit_char d = ''0123456789'' ! (d mod 10)"

function str_of_nat :: "nat \<Rightarrow> string" where
  "str_of_nat n = (if n < 10 then [digit_char n] else str_of_nat (n div 10) @ [digit_char n])"
  by pat_completeness auto
termination
  by (relation "measure id") auto

declare str_of_nat.simps [simp del]

text \<open>
  \<^verbatim>\<open>text.split()\<close> in \<^verbatim>\<open>to_camel_case\<close>, where the substitution before it has left
  the space as the only character that is not a letter or digit: the non-empty runs
  between spaces.
\<close>

fun split_spaces :: "string \<Rightarrow> string list" where
  "split_spaces [] = []"
| "split_spaces (c # cs) =
     (if c = CHR '' '' then split_spaces cs
      else (case cs of
              [] \<Rightarrow> [[c]]
            | c' # cs' \<Rightarrow>
                if c' = CHR '' '' then [c] # split_spaces cs
                else (case split_spaces cs of [] \<Rightarrow> [[c]] | w # ws \<Rightarrow> (c # w) # ws)))"

text \<open>\<^verbatim>\<open>to_camel_case\<close> (lines 15-38).\<close>

definition to_camel_case :: "string \<Rightarrow> string" where
  "to_camel_case text =
     (case split_spaces (map (\<lambda>c. if is_alnum c then c else CHR '' '') text) of
        [] \<Rightarrow> []
      | w # ws \<Rightarrow>
          foldl (\<lambda>result word.
                   (case word of
                      [] \<Rightarrow> result
                    | c # cs \<Rightarrow> result @ upper_char c # map lower_char cs))
            (map lower_char w) ws)"

section \<open>Containers\<close>

text \<open>
  \<^verbatim>\<open>key in container\<close> and \<^verbatim>\<open>container[key]\<close> for a string key, as the code applies
  them to values whose kind it has not checked: a dictionary looks the key up, a list
  and a string answer the membership test but cannot be indexed by a string, a scalar
  supports neither.
\<close>

fun py_in :: "string \<Rightarrow> pyval \<Rightarrow> error + bool" where
  "py_in key (PDict kvs) = Inr (has_key kvs (PStr key))"
| "py_in key (PList xs) = Inr (PStr key \<in> set xs)"
| "py_in key (PStr text) = Inr (is_substring key text)"
| "py_in key v = Inl TypeError"

fun py_getitem :: "pyval \<Rightarrow> string \<Rightarrow> error + pyval" where
  "py_getitem (PDict kvs) key =
     (case dict_get kvs (PStr key) of Some v \<Rightarrow> Inr v | None \<Rightarrow> Inl KeyError)"
| "py_getitem v key = Inl TypeError"

text \<open>\<^verbatim>\<open>container[key] = value\<close> on a dictionary: an unhashable key raises.\<close>

definition dict_setitem ::
  "(pyval \<times> pyval) list \<Rightarrow> pyval \<Rightarrow> pyval \<Rightarrow> error + (pyval \<times> pyval) list" where
  "dict_setitem kvs key v = (if hashable key then Inr (dict_set kvs key v) else Inl TypeError)"

fun py_setitem :: "pyval \<Rightarrow> pyval \<Rightarrow> pyval \<Rightarrow> error + pyval" where
  "py_setitem (PDict kvs) key v =
     (case dict_setitem kvs key v of Inl e \<Rightarrow> Inl e | Inr kvs' \<Rightarrow> Inr (PDict kvs'))"
| "py_setitem c key v = Inl TypeError"

section \<open>Parameters, request body and response\<close>

text \<open>
  The body of the loop of \<^verbatim>\<open>convert_parameters_to_json_schema\<close> (lines 243-258) on
  the dereferenced parameter; storing under an unhashable name raises.
\<close>

definition convert_parameter ::
  "pyval \<Rightarrow> (pyval \<times> pyval) list \<times> pyval list \<Rightarrow> error + (pyval \<times> pyval) list \<times> pyval list" where
  "convert_parameter dereferenced_param acc =
     (let (properties, required) = acc;
          param_name = safe_get dereferenced_param ''name'' (PStr []);
          param_schema = safe_get dereferenced_param ''schema'' (PDict []);
          param_description = safe_get dereferenced_param ''description'' (PStr []);
          param_required = safe_get dereferenced_param ''required'' (PBool False)
      in if truthy param_name then
           (case (if truthy param_description
                  then py_setitem (convert_openapi_schema_to_json_schema param_schema)
                         (PStr ''description'') param_description
                  else Inr (convert_openapi_schema_to_json_schema param_schema)) of
              Inl e \<Rightarrow> Inl e
            | Inr json_schema_prop \<Rightarrow>
                (case dict_setitem properties param_name json_schema_prop of
                   Inl e \<Rightarrow> Inl e
                 | Inr properties' \<Rightarrow>
                     Inr (properties',
                          if truthy param_required then required @ [param_name] else required)))
         else Inr (properties, required))"

text \<open>The loop (lines 241-262): an exception skips the parameter.\<close>

fun convert_parameters_loop ::
  "extractor \<Rightarrow> cache \<Rightarrow> pyval list \<Rightarrow> (pyval \<times> pyval) list \<times> pyval list
     \<Rightarrow> ((pyval \<times> pyval) list \<times> pyval list) \<times> cache" where
  "convert_parameters_loop self resolved_refs [] acc = (acc, resolved_refs)"
| "convert_parameters_loop self resolved_refs (param # params) acc =
     (let (dereferenced_param, resolved_refs') = dereference self resolved_refs param
      in convert_parameters_loop self resolved_refs' params
           (case convert_parameter dereferenced_param acc of
              Inl e \<Rightarrow> acc
            | Inr acc' \<Rightarrow> acc'))"

text \<open>
  \<^verbatim>\<open>convert_parameters_to_json_schema\<close> (lines 230-276), on the list that
  \<^verbatim>\<open>extract_paths\<close> passes.
\<close>

definition convert_parameters_to_json_schema ::
  "extractor \<Rightarrow> cache \<Rightarrow> pyval list \<Rightarrow> pyval \<times> cache" where
  "convert_parameters_to_json_schema self resolved_refs parameters =
     (if parameters = [] then (PDict [], resolved_refs)
      else (let ((properties, required), resolved_refs') =
                   convert_parameters_loop self resolved_refs parameters ([], [])
            in if properties = [] then (PDict [], resolved_refs')
               else (PDict [(PStr ''type'', PStr ''object''),
                            (PStr ''properties'', PDict properties),
                            (PStr ''required'', PList required)],
                     resolved_refs')))"

text \<open>
  The choice of a schema in a \<^verbatim>\<open>content\<close> value (lines 409-420 and 491-502): the
  first preferred media type that is in the content decides, and when that leaves no
  truthy schema and the content is truthy, the first key of the content does.
\<close>

fun preferred_schema :: "string list \<Rightarrow> pyval \<Rightarrow> error + pyval" where
  "preferred_schema [] content = Inr (PDict [])"
| "preferred_schema (media_type # media_types) content =
     (case py_in media_type content of
        Inl e \<Rightarrow> Inl e
      | Inr True \<Rightarrow>
          (case py_getitem content media_type of
             Inl e \<Rightarrow> Inl e
           | Inr media_info \<Rightarrow> Inr (safe_get media_info ''schema'' (PDict [])))
      | Inr False \<Rightarrow> preferred_schema media_types content)"

definition first_available_schema :: "pyval \<Rightarrow> error + pyval" where
  "first_available_schema content =
     (case content of
        PDict kvs \<Rightarrow>
          (case kvs of
             [] \<Rightarrow> Inl IndexError
           | (first_media, v) # rest \<Rightarrow>
               (case dict_get kvs first_media of
                  Some media_info \<Rightarrow> Inr (safe_get media_info ''schema'' (PDict []))
                | None \<Rightarrow> Inl KeyError))
      | _ \<Rightarrow> Inl AttributeError)"

definition schema_from_content :: "string list \<Rightarrow> pyval \<Rightarrow> error + pyval" where
  "schema_from_content media_types content =
     (case preferred_schema media_types content of
        Inl e \<Rightarrow> Inl e
      | Inr schema \<Rightarrow>
          if \<not> truthy schema \<and> truthy content then first_available_schema content
          else Inr schema)"

definition convert_schema_or_empty :: "error + pyval \<Rightarrow> pyval" where
  "convert_schema_or_empty r =
     (case r of
        Inl e \<Rightarrow> PDict []
      | Inr schema \<Rightarrow>
          if \<not> truthy schema then PDict [] else convert_openapi_schema_to_json_schema schema)"

text \<open>\<^verbatim>\<open>convert_request_body_to_json_schema\<close> (lines 397-429).\<close>

definition convert_request_body_to_json_schema ::
  "extractor \<Rightarrow> cache \<Rightarrow> pyval \<Rightarrow> pyval \<times> cache" where
  "convert_request_body_to_json_schema self resolved_refs request_body =
     (if \<not> truthy request_body then (PDict [], resolved_refs)
      else (let (dereferenced_body, resolved_refs') = dereference self resolved_refs request_body;
                content = safe_get dereferenced_body ''content'' (PDict [])
            in (convert_schema_or_empty
                  (schema_from_content
                     [''application/json'', ''application/x-www-form-urlencoded'',
                      ''multipart/form-data''] content),
                resolved_refs')))"

text \<open>
  The scan of the status codes (lines 478-483): \<^verbatim>\<open>None\<close> when no code is in the
  responses.
\<close>

fun find_response :: "nat list \<Rightarrow> pyval \<Rightarrow> error + pyval" where
  "find_response [] dereferenced_responses = Inr PNone"
| "find_response (status_code # status_codes) dereferenced_responses =
     (case py_in (str_of_nat status_code) dereferenced_responses of
        Inl e \<Rightarrow> Inl e
      | Inr True \<Rightarrow> py_getitem dereferenced_responses (str_of_nat status_code)
      | Inr False \<Rightarrow> find_response status_codes dereferenced_responses)"

text \<open>\<^verbatim>\<open>range(200, 300)\<close>.\<close>

definition success_codes :: "nat list" where
  "success_codes = [200..<300]"

text \<open>Lines 485-507 on the response found.\<close>

definition response_schema :: "pyval \<Rightarrow> pyval" where
  "response_schema response_data =
     (if \<not> truthy response_data then PDict []
      else convert_schema_or_empty
             (schema_from_content [''application/json'', ''text/plain'', ''application/xml'']
                (safe_get response_data ''content'' (PDict []))))"

text \<open>\<^verbatim>\<open>convert_response_to_json_schema\<close> (lines 466-511).\<close>

definition convert_response_to_json_schema ::
  "extractor \<Rightarrow> cache \<Rightarrow> pyval \<Rightarrow> pyval \<times> cache" where
  "convert_response_to_json_schema self resolved_refs responses =
     (if \<not> truthy responses then (PDict [], resolved_refs)
      else (let (dereferenced_responses, resolved_refs') = dereference self resolved_refs responses
            in (case find_response success_codes dereferenced_responses of
                  Inl e \<Rightarrow> (PDict [], resolved_refs')
                | Inr response_data \<Rightarrow> (response_schema response_data, resolved_refs'))))"

section \<open>Servers\<close>

text \<open>The dictionary \<^verbatim>\<open>server_info\<close> with its three fixed keys.\<close>

record server_info =
  server_url :: pyval
  server_description :: pyval
  server_variables :: pyval

text \<open>
  Lines 549-566 of \<^verbatim>\<open>extract_servers\<close>: the root list, replaced by a non-empty
  path-level list, replaced by a non-empty operation-level list.
\<close>

definition level_servers :: "pyval \<Rightarrow> pyval list \<Rightarrow> pyval list" where
  "level_servers level servers =
     (if truthy level \<and> isinstance_dict level then
        (case safe_get level ''servers'' (PList []) of
           PList level_list \<Rightarrow> if level_list \<noteq> [] then level_list else servers
         | _ \<Rightarrow> servers)
      else servers)"

definition select_servers :: "extractor \<Rightarrow> pyval \<Rightarrow> pyval \<Rightarrow> pyval list" where
  "select_servers self path_item operation =
     (let root_servers = safe_get (spec self) ''servers'' (PList []);
          servers = (case root_servers of PList root_list \<Rightarrow> [] @ root_list | _ \<Rightarrow> []);
          servers = level_servers path_item servers;
          servers = level_servers operation servers
      in servers)"

text \<open>
  The formatting loop (lines 569-587): a server that is not a dictionary after
  dereferencing is left out. \<^verbatim>\<open>dereference_object\<close> does not raise, so the fallback
  entry of the handler is never appended.
\<close>

fun format_servers ::
  "extractor \<Rightarrow> cache \<Rightarrow> pyval list \<Rightarrow> server_info list \<Rightarrow> server_info list \<times> cache" where
  "format_servers self resolved_refs [] formatted_servers = (formatted_servers, resolved_refs)"
| "format_servers self resolved_refs (server # servers) formatted_servers =
     (let (dereferenced_server, resolved_refs') = dereference self resolved_refs server
      in format_servers self resolved_refs' servers
           (if isinstance_dict dereferenced_server then
              formatted_servers @
                [\<lparr>server_url = safe_get dereferenced_server ''url'' (PStr []),
                  server_description = safe_get dereferenced_server ''description'' (PStr []),
                  server_variables = safe_get dereferenced_server ''variables'' (PDict [])\<rparr>]
            else formatted_servers))"

definition default_server :: server_info where
  "default_server =
     \<lparr>server_url = PStr [],
      server_description = PStr ''No server information available'',
      server_variables = PDict []\<rparr>"

text \<open>Lines 597-601: a truthy \<^verbatim>\<open>self.base_url\<close> overrides every server.\<close>

definition override_servers :: "extractor \<Rightarrow> server_info list \<Rightarrow> server_info list" where
  "override_servers self formatted_servers =
     (case base_url self of
        Some b \<Rightarrow>
          if b \<noteq> [] then
            map (\<lambda>server. server\<lparr>server_url := PStr b,
                                 server_description := PStr (''Base URL override: '' @ b)\<rparr>)
              formatted_servers
          else formatted_servers
      | None \<Rightarrow> formatted_servers)"

text \<open>
  \<^verbatim>\<open>extract_servers\<close> (lines 541-611). Nothing in the body raises outside the inner
  \<^verbatim>\<open>try\<close>, so the outer handler does not run.
\<close>

definition extract_servers ::
  "extractor \<Rightarrow> cache \<Rightarrow> pyval \<Rightarrow> pyval \<Rightarrow> server_info list \<times> cache" where
  "extract_servers self resolved_refs path_item operation =
     (let (formatted_servers, resolved_refs') =
             format_servers self resolved_refs (select_servers self path_item operation) [];
          formatted_servers =
             (if formatted_servers = [] then [default_server] else formatted_servers)
      in (override_servers self formatted_servers, resolved_refs'))"

section \<open>Operations\<close>

text \<open>The dictionary \<^verbatim>\<open>path_info\<close> (lines 681-695).\<close>

record path_info =
  name :: string
  description :: pyval
  http_method :: string
  endpoint :: string
  headers :: pyval
  parameters :: pyval
  body :: pyval
  response :: pyval

definition authorization_headers :: pyval where
  "authorization_headers =
     PList [PDict [(PStr ''name'', PStr ''Authorization''), (PStr ''required'', PBool True)]]"

text \<open>Lines 650-657: the path-level parameters, then the operation-level ones.\<close>

definition list_or_empty :: "pyval \<Rightarrow> pyval list" where
  "list_or_empty v = (case v of PList xs \<Rightarrow> xs | _ \<Rightarrow> [])"

definition merge_parameters :: "pyval \<Rightarrow> pyval \<Rightarrow> pyval list" where
  "merge_parameters path_parameters operation_parameters =
     ([] @ list_or_empty path_parameters) @ list_or_empty operation_parameters"

text \<open>The default of \<^verbatim>\<open>operationId\<close> (line 660).\<close>

definition synthesized_id :: "string \<Rightarrow> string \<Rightarrow> string" where
  "synthesized_id method_name endpoint_path =
     method_name @ ''_'' @
       filter (\<lambda>c. c \<noteq> CHR ''}'')
         (filter (\<lambda>c. c \<noteq> CHR ''{'')
            (map (\<lambda>c. if c = CHR ''/'' then CHR ''_'' else c) endpoint_path))"

text \<open>Lines 663-664: \<^verbatim>\<open>re.search\<close> accepts a string only.\<close>

definition normalize_operation_id :: "pyval \<Rightarrow> error + string" where
  "normalize_operation_id operation_id =
     (case operation_id of
        PStr s \<Rightarrow> Inr (if list_ex (\<lambda>c. \<not> is_alnum c) s then to_camel_case s else s)
      | _ \<Rightarrow> Inl TypeError)"

text \<open>
  Lines 670-675: the url of the first server with its trailing slashes stripped
  (\<^verbatim>\<open>rstrip\<close> exists on strings only), put before the path when it is not empty.
\<close>

definition first_base_url :: "server_info list \<Rightarrow> error + string" where
  "first_base_url servers =
     (case servers of
        [] \<Rightarrow> Inr []
      | server # rest \<Rightarrow>
          (case server_url server of
             PStr u \<Rightarrow> Inr (rstrip CHR ''/'' u)
           | _ \<Rightarrow> Inl AttributeError))"

definition full_url :: "string \<Rightarrow> string \<Rightarrow> string" where
  "full_url base endpoint_path = (if base \<noteq> [] then base @ endpoint_path else endpoint_path)"

text \<open>
  The body of the \<^verbatim>\<open>try\<close> for one operation (lines 644-703): the entry and its tags,
  or the exception. The key of the path is a string in a loaded document;
  \<^verbatim>\<open>replace\<close> exists on strings only. The cache keeps the entries made before an
  exception.
\<close>

definition process_operation ::
  "extractor \<Rightarrow> cache \<Rightarrow> pyval \<Rightarrow> pyval \<Rightarrow> string \<Rightarrow> pyval
     \<Rightarrow> (error + path_info \<times> pyval) \<times> cache" where
  "process_operation self resolved_refs endpoint_key dereferenced_path_item method_name operation =
     (let path_parameters = safe_get dereferenced_path_item ''parameters'' (PList []);
          operation_parameters = safe_get operation ''parameters'' (PList []);
          all_parameters = merge_parameters path_parameters operation_parameters
      in case endpoint_key of
           PStr endpoint_path \<Rightarrow>
             (case normalize_operation_id
                     (safe_get operation ''operationId''
                        (PStr (synthesized_id method_name endpoint_path))) of
                Inl e \<Rightarrow> (Inl e, resolved_refs)
              | Inr operation_id \<Rightarrow>
                  (let (servers, c1) =
                          extract_servers self resolved_refs dereferenced_path_item operation
                   in case first_base_url servers of
                        Inl e \<Rightarrow> (Inl e, c1)
                      | Inr base \<Rightarrow>
                          (let (params_schema, c2) =
                                  convert_parameters_to_json_schema self c1 all_parameters;
                               (body_schema, c3) =
                                  convert_request_body_to_json_schema self c2
                                    (safe_get operation ''requestBody'' (PDict []));
                               (resp_schema, c4) =
                                  convert_response_to_json_schema self c3
                                    (safe_get operation ''responses'' (PDict []));
                               path_tags = safe_get operation ''tags'' (PList [])
                           in (Inr (\<lparr>name = operation_id,
                                     description =
                                       safe_get operation ''description''
                                         (safe_get operation ''summary'' (PStr [])),
                                     http_method = map upper_char method_name,
                                     endpoint = full_url base endpoint_path,
                                     headers = authorization_headers,
                                     parameters = params_schema,
                                     body = body_schema,
                                     response = resp_schema\<rparr>,
                                    if \<not> truthy path_tags then PList [PStr ''untagged'']
                                    else path_tags),
                               c4))))
         | _ \<Rightarrow> (Inl AttributeError, resolved_refs))"

definition http_methods :: "string list" where
  "http_methods = [''get'', ''post'', ''put'', ''delete'', ''patch'', ''head'', ''options'', ''trace'']"

text \<open>
  The loop over the methods (lines 641-707): a method that is absent or whose value is
  not a dictionary is passed over, an exception skips the operation.
\<close>

fun process_methods ::
  "extractor \<Rightarrow> cache \<Rightarrow> pyval \<Rightarrow> (pyval \<times> pyval) list \<Rightarrow> string list
     \<Rightarrow> (path_info \<times> pyval) list \<Rightarrow> (path_info \<times> pyval) list \<times> cache" where
  "process_methods self resolved_refs endpoint_key item [] extracted_paths =
     (extracted_paths, resolved_refs)"
| "process_methods self resolved_refs endpoint_key item (method_name # methods) extracted_paths =
     (case dict_get item (PStr method_name) of
        None \<Rightarrow> process_methods self resolved_refs endpoint_key item methods extracted_paths
      | Some operation \<Rightarrow>
          if \<not> isinstance_dict operation
          then process_methods self resolved_refs endpoint_key item methods extracted_paths
          else (case process_operation self resolved_refs endpoint_key (PDict item)
                       method_name operation of
                  (Inl e, resolved_refs') \<Rightarrow>
                    process_methods self resolved_refs' endpoint_key item methods extracted_paths
                | (Inr entry, resolved_refs') \<Rightarrow>
                    process_methods self resolved_refs' endpoint_key item methods
                      (extracted_paths @ [entry])))"

text \<open>
  The loop over the paths (lines 626-711). Outside the handler of the operation the
  body has no raising operation, so the handler of the path does not run.
\<close>

fun process_paths ::
  "extractor \<Rightarrow> cache \<Rightarrow> (pyval \<times> pyval) list \<Rightarrow> (path_info \<times> pyval) list
     \<Rightarrow> (path_info \<times> pyval) list \<times> cache" where
  "process_paths self resolved_refs [] extracted_paths = (extracted_paths, resolved_refs)"
| "process_paths self resolved_refs ((endpoint_key, path_item) # paths) extracted_paths =
     (let (dereferenced_path_item, resolved_refs') = dereference self resolved_refs path_item
      in case dereferenced_path_item of
           PDict item \<Rightarrow>
             (let (extracted_paths', resolved_refs'') =
                     process_methods self resolved_refs' endpoint_key item http_methods
                       extracted_paths
              in process_paths self resolved_refs'' paths extracted_paths')
         | _ \<Rightarrow> process_paths self resolved_refs' paths extracted_paths)"

text \<open>\<^verbatim>\<open>extract_paths\<close> (lines 613-717).\<close>

definition extract_paths :: "extractor \<Rightarrow> cache \<Rightarrow> (path_info \<times> pyval) list \<times> cache" where
  "extract_paths self resolved_refs =
     (case safe_get (spec self) ''paths'' (PDict []) of
        PDict paths \<Rightarrow> process_paths self resolved_refs paths []
      | _ \<Rightarrow> ([], resolved_refs))"

section \<open>Example documents and notions used in the statements\<close>

text \<open>A document without servers, paths or components.\<close>

definition empty_doc :: extractor where
  "empty_doc = \<lparr>spec = PDict [], base_url = None, py_str = (\<lambda>v. [])\<rparr>"

text \<open>Responses with the codes 404 and 201 only.\<close>

definition example_responses :: pyval where
  "example_responses =
     PDict [(PStr ''404'', PDict [(PStr ''description'', PStr ''Not found'')]),
            (PStr ''201'',
             PDict [(PStr ''content'',
                     PDict [(PStr ''application/json'',
                             PDict [(PStr ''schema'',
                                     PDict [(PStr ''type'', PStr ''integer'')])])])])]"

text \<open>A document with the root server R, for a path without servers and an operation with the server O.\<close>

definition servers_doc :: extractor where
  "servers_doc =
     \<lparr>spec = PDict [(PStr ''servers'', PList [PDict [(PStr ''url'', PStr ''https://r.example.com'')]])],
      base_url = None,
      py_str = (\<lambda>v. [])\<rparr>"

text \<open>The path item and the operation of the example.\<close>

definition example_path_item :: pyval where
  "example_path_item = PDict [(PStr ''servers'', PList []), (PStr ''get'', PDict [])]"

definition example_operation :: pyval where
  "example_operation =
     PDict [(PStr ''servers'', PList [PDict [(PStr ''url'', PStr ''https://o.example.com/'')]])]"

text \<open>
  The parameters of a list as \<^verbatim>\<open>convert_parameters_to_json_schema\<close> sees them: each
  dereferenced in turn, on the cache that the ones before it have left.
\<close>

fun dereference_all :: "extractor \<Rightarrow> cache \<Rightarrow> pyval list \<Rightarrow> pyval list \<times> cache" where
  "dereference_all self c [] = ([], c)"
| "dereference_all self c (param # params) =
     (let (d, c') = dereference self c param;
          (ds, c'') = dereference_all self c' params
      in (d # ds, c''))"

text \<open>
  The entry that a dereferenced parameter writes into the property map: its name, when
  that is truthy and hashable, with its converted schema.
\<close>

definition parameter_entry :: "pyval \<Rightarrow> (pyval \<times> pyval) option" where
  "parameter_entry d =
     (let param_name = safe_get d ''name'' (PStr []);
          param_description = safe_get d ''description'' (PStr []);
          prop = convert_openapi_schema_to_json_schema (safe_get d ''schema'' (PDict []))
      in if truthy param_name \<and> hashable param_name then
           Some (param_name,
                 if truthy param_description
                 then (case prop of
                         PDict kvs \<Rightarrow> PDict (dict_set kvs (PStr ''description'') param_description)
                       | _ \<Rightarrow> prop)
                 else prop)
         else None)"

text \<open>One round of the loop over the parameters: an exception leaves the accumulators.\<close>

definition apply_parameter ::
  "(pyval \<times> pyval) list \<times> pyval list \<Rightarrow> pyval \<Rightarrow> (pyval \<times> pyval) list \<times> pyval list" where
  "apply_parameter acc d = (case convert_parameter d acc of Inl e \<Rightarrow> acc | Inr acc' \<Rightarrow> acc')"

text \<open>
  A document with one path, \<^verbatim>\<open>/v1/users/{id}\<close>: the path and its GET operation both
  declare the parameter \<^verbatim>\<open>id\<close>, and its POST operation has a number as
  \<^verbatim>\<open>operationId\<close>.
\<close>

definition path_level_id :: pyval where
  "path_level_id =
     PDict [(PStr ''name'', PStr ''id''), (PStr ''in'', PStr ''path''),
            (PStr ''schema'', PDict [(PStr ''type'', PStr ''string'')])]"

definition operation_level_id :: pyval where
  "operation_level_id =
     PDict [(PStr ''name'', PStr ''id''), (PStr ''in'', PStr ''path''),
            (PStr ''schema'', PDict [(PStr ''type'', PStr ''integer'')])]"

definition users_operation :: pyval where
  "users_operation =
     PDict [(PStr ''operationId'', PStr ''getUser''),
            (PStr ''parameters'', PList [operation_level_id])]"

definition broken_operation :: pyval where
  "broken_operation = PDict [(PStr ''operationId'', PInt 5)]"

definition users_path_item :: pyval where
  "users_path_item =
     PDict [(PStr ''parameters'', PList [path_level_id]), (PStr ''get'', users_operation),
            (PStr ''post'', broken_operation)]"

definition api_doc :: extractor where
  "api_doc =
     \<lparr>spec = PDict [(PStr ''servers'', PList [PDict [(PStr ''url'', PStr ''https://api.example.com'')]]),
                    (PStr ''paths'', PDict [(PStr ''/v1/users/{id}'', users_path_item)])],
      base_url = None,
      py_str = (\<lambda>v. [])\<rparr>"

text \<open>The outcome of every operation that \<^verbatim>\<open>extract_paths\<close> attempts, in order.\<close>

fun methods_outcomes ::
  "extractor \<Rightarrow> cache \<Rightarrow> pyval \<Rightarrow> (pyval \<times> pyval) list \<Rightarrow> string list
     \<Rightarrow> (error + path_info \<times> pyval) list \<times> cache" where
  "methods_outcomes self c endpoint_key item [] = ([], c)"
| "methods_outcomes self c endpoint_key item (method_name # methods) =
     (case dict_get item (PStr method_name) of
        None \<Rightarrow> methods_outcomes self c endpoint_key item methods
      | Some operation \<Rightarrow>
          if \<not> isinstance_dict operation then methods_outcomes self c endpoint_key item methods
          else (let (outcome, c1) =
                       process_operation self c endpoint_key (PDict item) method_name operation;
                    (rest, c2) = methods_outcomes self c1 endpoint_key item methods
                in (outcome # rest, c2)))"

fun paths_outcomes ::
  "extractor \<Rightarrow> cache \<Rightarrow> (pyval \<times> pyval) list \<Rightarrow> (error + path_info \<times> pyval) list \<times> cache" where
  "paths_outcomes self c [] = ([], c)"
| "paths_outcomes self c ((endpoint_key, path_item) # paths) =
     (let (dereferenced_path_item, c1) = dereference self c path_item
      in case dereferenced_path_item of
           PDict item \<Rightarrow>
             (let (outcomes, c2) = methods_outcomes self c1 endpoint_key item http_methods;
                  (rest, c3) = paths_outcomes self c2 paths
              in (outcomes @ rest, c3))
         | _ \<Rightarrow> paths_outcomes self c1 paths)"

definition operation_outcomes ::
  "extractor \<Rightarrow> cache \<Rightarrow> (error + path_info \<times> pyval) list \<times> cache" where
  "operation_outcomes self c =
     (case safe_get (spec self) ''paths'' (PDict []) of
        PDict paths \<Rightarrow> paths_outcomes self c paths
      | _ \<Rightarrow> ([], c))"

fun successes :: "(error + 'a) list \<Rightarrow> 'a list" where
  "successes [] = []"
| "successes (Inl e # outcomes) = successes outcomes"
| "successes (Inr x # outcomes) = x # successes outcomes"

fun failures :: "(error + 'a) list \<Rightarrow> error list" where
  "failures [] = []"
| "failures (Inl e # outcomes) = e # failures outcomes"
| "failures (Inr x # outcomes) = failures outcomes"

text \<open>The descriptor of the GET operation of the example.\<close>

definition users_info :: path_info where
  "users_info =
     \<lparr>name = ''getUser'',
      description = PStr [],
      http_method = ''GET'',
      endpoint = ''https://api.example.com/v1/users/{id}'',
      headers = authorization_headers,
      parameters =
        PDict [(PStr ''type'', PStr ''object''),
               (PStr ''properties'', PDict [(PStr ''id'', PDict [(PStr ''type'', PStr ''integer'')])]),
               (PStr ''required'', PList [])],
      body = PDict [],
      response = PDict []\<rparr>"

section \<open>Dictionaries\<close>

lemma key_eq_refl [simp]: "key_eq k k"
  by (simp add: key_eq_def split: option.splits)

lemma key_eq_sym: "key_eq a b \<Longrightarrow> key_eq b a"
  by (auto simp: key_eq_def split: option.splits)

lemma key_eq_trans: "key_eq a b \<Longrightarrow> key_eq b c \<Longrightarrow> key_eq a c"
  by (auto simp: key_eq_def split: option.splits)

lemma key_eq_PStr [simp]: "key_eq (PStr a) (PStr b) = (a = b)"
  by (simp add: key_eq_def)

lemma key_eq_PStr_left: "key_eq (PStr a) k = (k = PStr a)"
  by (cases k) (auto simp: key_eq_def)

lemma key_eq_PStr_right: "key_eq k (PStr a) = (k = PStr a)"
  by (cases k) (auto simp: key_eq_def)

lemma dict_get_dict_set:
  "dict_get (dict_set kvs k v) k' = (if key_eq k k' then Some v else dict_get kvs k')"
proof (induction kvs)
  case Nil
  show ?case by simp
next
  case (Cons a kvs)
  obtain k0 v0 where a: "a = (k0, v0)" by (cases a)
  show ?case using Cons a
    by (auto dest: key_eq_trans key_eq_sym)
qed

lemma copy_if_truthy_type:
  "key \<noteq> ''type'' \<Longrightarrow> dict_get (copy_if_truthy schema key d js) (PStr ''type'') = dict_get js (PStr ''type'')"
  by (simp add: copy_if_truthy_def Let_def dict_get_dict_set)

lemma copy_constraints_type:
  "dict_get (copy_constraints schema js) (PStr ''type'') = dict_get js (PStr ''type'')"
  by (simp add: copy_constraints_def Let_def dict_get_dict_set)

lemma convert_object_fields_type:
  "convert_object_fields conv schema js = Inr js' \<Longrightarrow>
   dict_get js' (PStr ''type'') = dict_get js (PStr ''type'')"
  by (auto simp: convert_object_fields_def Let_def dict_get_dict_set copy_if_truthy_type
      split: if_splits pyval.splits sum.splits)

lemma convert_body_type:
  assumes "convert_body conv schema = Inr js"
  shows "\<exists>t. infer_schema_type schema = Inr t \<and> result_type js = Some t"
  using assms
  by (auto simp: convert_body_def Let_def result_type_def copy_constraints_type dict_get_dict_set
       copy_if_truthy_type split: sum.splits if_splits dest!: convert_object_fields_type)

lemma convert_object_fields_ok:
  "\<not> malformed_properties schema \<Longrightarrow> \<exists>js'. convert_object_fields conv schema js = Inr js'"
  by (auto simp: convert_object_fields_def malformed_properties_def Let_def
      split: pyval.splits)

lemma convert_object_fields_fail:
  "malformed_properties schema \<Longrightarrow> \<exists>e. convert_object_fields conv schema js = Inl e"
  by (auto simp: convert_object_fields_def malformed_properties_def Let_def
      split: pyval.splits)

lemma convert_body_ok:
  assumes "infer_schema_type schema = Inr t"
    and "t = PStr ''object'' \<longrightarrow> \<not> malformed_properties schema"
  shows "\<exists>js. convert_body conv schema = Inr js"
proof (cases "t = PStr ''object''")
  case True
  then obtain js' where "convert_object_fields conv schema
      (copy_if_truthy schema ''format'' PNone
        (copy_if_truthy schema ''enum'' PNone
          (copy_if_truthy schema ''description'' PNone [(PStr ''type'', t)]))) = Inr js'"
    using convert_object_fields_ok assms(2) by blast
  then show ?thesis using assms(1) True by (simp add: convert_body_def Let_def)
next
  case False
  then show ?thesis using assms(1) by (simp add: convert_body_def Let_def)
qed

lemma convert_type:
  assumes "infer_schema_type schema = Inr t"
    and "t = PStr ''object'' \<longrightarrow> \<not> malformed_properties schema"
  shows "result_type (convert_openapi_schema_to_json_schema (PDict schema)) = Some t"
proof -
  obtain js where js: "convert_body convert_openapi_schema_to_json_schema schema = Inr js"
    using convert_body_ok[OF assms] by blast
  then have "result_type js = Some t" using convert_body_type[OF js] assms(1) by simp
  then show ?thesis using js by (simp add: convert_openapi_schema_to_json_schema.simps[of "PDict schema"])
qed

lemma convert_malformed:
  assumes "infer_schema_type schema = Inr (PStr ''object'')" and "malformed_properties schema"
  shows "convert_openapi_schema_to_json_schema (PDict schema) = string_schema"
proof -
  obtain e where "convert_object_fields convert_openapi_schema_to_json_schema schema
      (copy_if_truthy schema ''format'' PNone
        (copy_if_truthy schema ''enum'' PNone
          (copy_if_truthy schema ''description'' PNone [(PStr ''type'', PStr ''object'')]))) = Inl e"
    using convert_object_fields_fail[OF assms(2)] by blast
  then have "\<exists>e. convert_body convert_openapi_schema_to_json_schema schema = Inl e"
    using assms(1) by (simp add: convert_body_def Let_def)
  then show ?thesis by (auto simp: convert_openapi_schema_to_json_schema.simps[of "PDict schema"])
qed

lemma malformed_has_properties:
  "malformed_properties schema \<Longrightarrow> has_key schema (PStr ''properties'')"
  by (auto simp: malformed_properties_def safe_get_def dict_get_default_def has_key_def Let_def
      split: option.splits)

section \<open>Type inference\<close>

text \<open>
  C1 (as amended). For a schema node with no \<^verbatim>\<open>type\<close> field the normalizer infers the
  type in this priority: with \<^verbatim>\<open>properties\<close> or \<^verbatim>\<open>additionalProperties\<close> present the
  type is \<^verbatim>\<open>object\<close>, unless \<^verbatim>\<open>properties\<close> is truthy and not a dictionary, which
  makes the whole node degrade to \<^verbatim>\<open>{"type": "string"}\<close>; else with \<^verbatim>\<open>items\<close>
  present it is \<^verbatim>\<open>array\<close>; else with \<^verbatim>\<open>enum\<close> present, a list whose first value is
  a string gives \<^verbatim>\<open>string\<close>, one whose first value is an int or a float gives
  \<^verbatim>\<open>number\<close>, and an empty list leaves the type unset (\<^verbatim>\<open>None\<close>); with none of the
  four keys the type is \<^verbatim>\<open>string\<close>.
\<close>

theorem type_inference_priority:
  assumes "dict_get schema (PStr ''type'') = None"
  shows
    "((has_key schema (PStr ''properties'') \<or> has_key schema (PStr ''additionalProperties''))
        \<and> \<not> malformed_properties schema
      \<longrightarrow> result_type (convert_openapi_schema_to_json_schema (PDict schema)) = Some (PStr ''object''))
   \<and> (malformed_properties schema
      \<longrightarrow> convert_openapi_schema_to_json_schema (PDict schema) = string_schema)
   \<and> (\<not> has_key schema (PStr ''properties'') \<and> \<not> has_key schema (PStr ''additionalProperties'')
      \<longrightarrow>
        (has_key schema (PStr ''items'')
           \<longrightarrow> result_type (convert_openapi_schema_to_json_schema (PDict schema)) = Some (PStr ''array''))
      \<and> (\<not> has_key schema (PStr ''items'') \<longrightarrow>
           (\<forall>s rest. dict_get schema (PStr ''enum'') = Some (PList (PStr s # rest))
              \<longrightarrow> result_type (convert_openapi_schema_to_json_schema (PDict schema)) = Some (PStr ''string''))
         \<and> (\<forall>i rest. dict_get schema (PStr ''enum'') = Some (PList (PInt i # rest))
              \<longrightarrow> result_type (convert_openapi_schema_to_json_schema (PDict schema)) = Some (PStr ''number''))
         \<and> (\<forall>q rest. dict_get schema (PStr ''enum'') = Some (PList (PFloat q # rest))
              \<longrightarrow> result_type (convert_openapi_schema_to_json_schema (PDict schema)) = Some (PStr ''number''))
         \<and> (dict_get schema (PStr ''enum'') = Some (PList [])
              \<longrightarrow> result_type (convert_openapi_schema_to_json_schema (PDict schema)) = Some PNone)
         \<and> (\<not> has_key schema (PStr ''enum'')
              \<longrightarrow> result_type (convert_openapi_schema_to_json_schema (PDict schema)) = Some (PStr ''string''))))"
proof -
  have notype: "safe_get (PDict schema) ''type'' PNone = PNone"
    using assms by (simp add: safe_get_def dict_get_default_def)
  have obj: "infer_schema_type schema = Inr (PStr ''object'')"
    if "has_key schema (PStr ''properties'') \<or> has_key schema (PStr ''additionalProperties'')"
    using that notype by (auto simp: infer_schema_type_def)
  have arr: "infer_schema_type schema = Inr (PStr ''array'')"
    if "\<not> has_key schema (PStr ''properties'')" "\<not> has_key schema (PStr ''additionalProperties'')"
       "has_key schema (PStr ''items'')"
    using that notype by (simp add: infer_schema_type_def)
  have enum: "infer_schema_type schema = Inr t"
    if "\<not> has_key schema (PStr ''properties'')" "\<not> has_key schema (PStr ''additionalProperties'')"
       "\<not> has_key schema (PStr ''items'')" "dict_get schema (PStr ''enum'') = Some (PList vs)"
       "(vs = [] \<and> t = PNone) \<or> (\<exists>s rest. vs = PStr s # rest \<and> t = PStr ''string'')
          \<or> (\<exists>i rest. vs = PInt i # rest \<and> t = PStr ''number'')
          \<or> (\<exists>q rest. vs = PFloat q # rest \<and> t = PStr ''number'')" for vs t
    using that notype by (auto simp: infer_schema_type_def has_key_def dict_get_default_def)
  have dflt: "infer_schema_type schema = Inr (PStr ''string'')"
    if "\<not> has_key schema (PStr ''properties'')" "\<not> has_key schema (PStr ''additionalProperties'')"
       "\<not> has_key schema (PStr ''items'')" "\<not> has_key schema (PStr ''enum'')"
    using that notype by (simp add: infer_schema_type_def)
  let ?T = "result_type (convert_openapi_schema_to_json_schema (PDict schema))"
  have A: "?T = Some (PStr ''object'')"
    if "(has_key schema (PStr ''properties'') \<or> has_key schema (PStr ''additionalProperties''))
        \<and> \<not> malformed_properties schema"
    using that obj convert_type by blast
  have A': "convert_openapi_schema_to_json_schema (PDict schema) = string_schema"
    if "malformed_properties schema"
    using that obj convert_malformed malformed_has_properties by blast
  have B: "?T = Some (PStr ''array'')"
    if "\<not> has_key schema (PStr ''properties'')" "\<not> has_key schema (PStr ''additionalProperties'')"
       "has_key schema (PStr ''items'')"
    using convert_type[OF arr[OF that]] by simp
  have C: "?T = Some t"
    if "\<not> has_key schema (PStr ''properties'')" "\<not> has_key schema (PStr ''additionalProperties'')"
       "\<not> has_key schema (PStr ''items'')" "dict_get schema (PStr ''enum'') = Some (PList vs)"
       "(vs = [] \<and> t = PNone) \<or> (\<exists>s rest. vs = PStr s # rest \<and> t = PStr ''string'')
          \<or> (\<exists>i rest. vs = PInt i # rest \<and> t = PStr ''number'')
          \<or> (\<exists>q rest. vs = PFloat q # rest \<and> t = PStr ''number'')" for vs t
  proof -
    have "t \<noteq> PStr ''object''" using that(5) by auto
    then show ?thesis using convert_type[OF enum[OF that]] by simp
  qed
  have D: "?T = Some (PStr ''string'')"
    if "\<not> has_key schema (PStr ''properties'')" "\<not> has_key schema (PStr ''additionalProperties'')"
       "\<not> has_key schema (PStr ''items'')" "\<not> has_key schema (PStr ''enum'')"
    using convert_type[OF dflt[OF that]] by simp
  show ?thesis
  proof (intro conjI impI allI)
    show "?T = Some (PStr ''object'')"
      if "(has_key schema (PStr ''properties'') \<or> has_key schema (PStr ''additionalProperties''))
        \<and> \<not> malformed_properties schema"
      using A that by blast
  next
    show "convert_openapi_schema_to_json_schema (PDict schema) = string_schema"
      if "malformed_properties schema" using A' that by blast
  next
    show "?T = Some (PStr ''array'')"
      if "\<not> has_key schema (PStr ''properties'') \<and> \<not> has_key schema (PStr ''additionalProperties'')"
         "has_key schema (PStr ''items'')"
      using B that by blast
  next
    fix s rest
    show "?T = Some (PStr ''string'')"
      if "\<not> has_key schema (PStr ''properties'') \<and> \<not> has_key schema (PStr ''additionalProperties'')"
         "\<not> has_key schema (PStr ''items'')"
         "dict_get schema (PStr ''enum'') = Some (PList (PStr s # rest))"
      using C[of "PStr s # rest" "PStr ''string''"] that by blast
  next
    fix i rest
    show "?T = Some (PStr ''number'')"
      if "\<not> has_key schema (PStr ''properties'') \<and> \<not> has_key schema (PStr ''additionalProperties'')"
         "\<not> has_key schema (PStr ''items'')"
         "dict_get schema (PStr ''enum'') = Some (PList (PInt i # rest))"
      using C[of "PInt i # rest" "PStr ''number''"] that by blast
  next
    fix q rest
    show "?T = Some (PStr ''number'')"
      if "\<not> has_key schema (PStr ''properties'') \<and> \<not> has_key schema (PStr ''additionalProperties'')"
         "\<not> has_key schema (PStr ''items'')"
         "dict_get schema (PStr ''enum'') = Some (PList (PFloat q # rest))"
      using C[of "PFloat q # rest" "PStr ''number''"] that by blast
  next
    show "?T = Some PNone"
      if "\<not> has_key schema (PStr ''properties'') \<and> \<not> has_key schema (PStr ''additionalProperties'')"
         "\<not> has_key schema (PStr ''items'')"
         "dict_get schema (PStr ''enum'') = Some (PList [])"
      using C[of "[]" PNone] that by blast
  next
    show "?T = Some (PStr ''string'')"
      if "\<not> has_key schema (PStr ''properties'') \<and> \<not> has_key schema (PStr ''additionalProperties'')"
         "\<not> has_key schema (PStr ''items'')" "\<not> has_key schema (PStr ''enum'')"
      using D that by blast
  qed
qed

text \<open>The three examples of the specification.\<close>

theorem type_inference_priority_witness:
  "result_type (convert_openapi_schema_to_json_schema
      (PDict [(PStr ''items'', PDict [(PStr ''type'', PStr ''string'')])])) = Some (PStr ''array'')
   \<and> result_type (convert_openapi_schema_to_json_schema
      (PDict [(PStr ''properties'', PDict [])])) = Some (PStr ''object'')
   \<and> result_type (convert_openapi_schema_to_json_schema
      (PDict [(PStr ''enum'', PList [PInt 1, PInt 2])])) = Some (PStr ''number'')"
  using type_inference_priority[of "[(PStr ''items'', PDict [(PStr ''type'', PStr ''string'')])]"]
    type_inference_priority[of "[(PStr ''properties'', PDict [])]"]
    type_inference_priority[of "[(PStr ''enum'', PList [PInt 1, PInt 2])]"]
  by (simp add: has_key_def malformed_properties_def safe_get_def dict_get_default_def)

text \<open>
  C1 as stated fails on an empty enum: the type is not \<^verbatim>\<open>string\<close> but stays unset.
\<close>

theorem empty_enum_counterexample:
  "dict_get [(PStr ''enum'', PList [])] (PStr ''type'') = None
   \<and> convert_openapi_schema_to_json_schema (PDict [(PStr ''enum'', PList [])])
       = PDict [(PStr ''type'', PNone)]
   \<and> result_type (convert_openapi_schema_to_json_schema (PDict [(PStr ''enum'', PList [])]))
       \<noteq> Some (PStr ''string'')"
  by (simp add: convert_openapi_schema_to_json_schema.simps[of "PDict [(PStr ''enum'', PList [])]"]
      convert_body_def infer_schema_type_def safe_get_def dict_get_default_def has_key_def
      copy_if_truthy_def copy_constraints_def result_type_def)

text \<open>
  A boolean first value is an \<^verbatim>\<open>int\<close> for \<^verbatim>\<open>isinstance\<close>, so the branch for
  \<^verbatim>\<open>bool\<close> after it is never reached and the type is \<^verbatim>\<open>number\<close>.
\<close>

lemma boolean_enum_is_number:
  "convert_openapi_schema_to_json_schema (PDict [(PStr ''enum'', PList [PBool True, PBool False])])
     = PDict [(PStr ''type'', PStr ''number''), (PStr ''enum'', PList [PBool True, PBool False])]"
  by (simp add: convert_openapi_schema_to_json_schema.simps[of "PDict [(PStr ''enum'', PList [PBool True, PBool False])]"]
      convert_body_def infer_schema_type_def safe_get_def dict_get_default_def has_key_def
      copy_if_truthy_def copy_constraints_def result_type_def)

section \<open>Termination of dereferencing\<close>

lemma refs_of_item: "(k, v) \<in> set kvs \<Longrightarrow> set (refs_of v) \<subseteq> set (refs_of (PDict kvs))"
  by (induction kvs) auto

lemma dict_get_in_set: "dict_get kvs k = Some v \<Longrightarrow> \<exists>k'. (k', v) \<in> set kvs"
  by (induction kvs) (auto split: if_splits)

lemma refs_of_dict_get: "dict_get kvs k = Some v \<Longrightarrow> set (refs_of v) \<subseteq> set (refs_of (PDict kvs))"
  using dict_get_in_set refs_of_item by blast

lemma refs_of_elem: "x \<in> set xs \<Longrightarrow> set (refs_of x) \<subseteq> set (refs_of (PList xs))"
  by (induction xs) auto

lemma elem_size: "x \<in> set xs \<Longrightarrow> size x < size (PList xs)"
  by (induction xs) auto

lemma refs_of_ref: "dict_get kvs (PStr ''$ref'') = Some (PStr r) \<Longrightarrow> r \<in> set (refs_of (PDict kvs))"
  by simp

lemma navigate_sub:
  "navigate current parts = Some v \<Longrightarrow> set (refs_of v) \<subseteq> set (refs_of current) \<and> size v \<le> size current"
proof (induction parts arbitrary: current)
  case Nil
  then show ?case by simp
next
  case (Cons part parts)
  then obtain kvs w where c: "current = PDict kvs" "dict_get kvs (PStr part) = Some w"
      "navigate w parts = Some v"
    by (auto split: pyval.splits option.splits)
  have "set (refs_of v) \<subseteq> set (refs_of w)" "size v \<le> size w" using Cons.IH[OF c(3)] by auto
  moreover have "set (refs_of w) \<subseteq> set (refs_of current)" using c refs_of_dict_get by blast
  moreover have "size w < size current" using c dict_get_size by blast
  ultimately show ?case by auto
qed

lemma deref_items_returns:
  "(\<And>c k v. (k, v) \<in> set kvs \<Longrightarrow> d c v \<noteq> None) \<Longrightarrow> deref_items d c kvs res \<noteq> None"
proof (induction kvs arbitrary: c res)
  case Nil
  show ?case by simp
next
  case (Cons a kvs)
  obtain k v where a: "a = (k, v)" by (cases a)
  obtain v' c' where "d c v = Some (v', c')" using Cons.prems[of k v c] a by auto
  moreover have "deref_items d c' kvs (dict_set res k v') \<noteq> None"
    using Cons.IH Cons.prems by (metis list.set_intros(2))
  ultimately show ?case using a by simp
qed

lemma deref_list_returns:
  "(\<And>c v. v \<in> set xs \<Longrightarrow> d c v \<noteq> None) \<Longrightarrow> deref_list d c xs res \<noteq> None"
proof (induction xs arbitrary: c res)
  case Nil
  show ?case by simp
next
  case (Cons x xs)
  obtain v' c' where "d c x = Some (v', c')" using Cons.prems[of x c] by auto
  moreover have "deref_list d c' xs (res @ [v']) \<noteq> None"
    using Cons.IH Cons.prems by (metis list.set_intros(2))
  ultimately show ?case by simp
qed

lemma nesting_bound_child:
  assumes "set (refs_of v) \<subseteq> set (refs_of obj)" "size v < size obj"
  shows "nesting_bound self v visited < nesting_bound self obj visited"
proof -
  have "card ((set (refs_of (spec self)) \<union> set (refs_of v)) - visited)
      \<le> card ((set (refs_of (spec self)) \<union> set (refs_of obj)) - visited)"
    using assms(1) by (intro card_mono) auto
  then have "card ((set (refs_of (spec self)) \<union> set (refs_of v)) - visited) * (size (spec self) + 1)
      \<le> card ((set (refs_of (spec self)) \<union> set (refs_of obj)) - visited) * (size (spec self) + 1)"
    by (rule mult_le_mono1)
  then show ?thesis using assms(2) unfolding nesting_bound_def by linarith
qed

lemma nesting_bound_jump:
  assumes "r \<in> set (refs_of obj)" "r \<notin> visited" "navigate (spec self) parts = Some current"
  shows "nesting_bound self current (insert r visited) < nesting_bound self obj visited"
proof -
  let ?R = "set (refs_of (spec self))"
  let ?H = "size (spec self) + 1"
  have sub: "set (refs_of current) \<subseteq> ?R" "size current \<le> size (spec self)"
    using navigate_sub[OF assms(3)] by auto
  have "(?R \<union> set (refs_of current)) - insert r visited \<subset> (?R \<union> set (refs_of obj)) - visited"
    using sub(1) assms(1,2) by auto
  then have "card ((?R \<union> set (refs_of current)) - insert r visited)
      < card ((?R \<union> set (refs_of obj)) - visited)"
    by (intro psubset_card_mono) auto
  then have "(card ((?R \<union> set (refs_of current)) - insert r visited) + 1) * ?H
      \<le> card ((?R \<union> set (refs_of obj)) - visited) * ?H"
    by (intro mult_le_mono1) simp
  then show ?thesis using sub(2) unfolding nesting_bound_def by simp
qed

lemma resolve_reference_with_returns:
  assumes "\<And>r current. ref_path = PStr r \<Longrightarrow> r \<notin> visited
      \<Longrightarrow> navigate (spec self) (split_on CHR ''/'' (drop 2 r)) = Some current
      \<Longrightarrow> deref resolved_refs current (insert r visited) 0 \<noteq> None"
  shows "resolve_reference_with deref self resolved_refs ref_path visited \<noteq> None"
proof (cases ref_path)
  case (PStr r)
  show ?thesis
  proof (cases "r \<in> visited")
    case True
    then show ?thesis using PStr by (simp add: resolve_reference_with_def)
  next
    case False
    then show ?thesis using PStr assms[OF PStr False]
      by (auto simp: resolve_reference_with_def split: option.splits)
  qed
qed (simp_all add: resolve_reference_with_def)

lemma dereference_object_returns:
  "nesting_bound self obj visited \<le> fuel
     \<Longrightarrow> dereference_object fuel self resolved_refs obj visited depth \<noteq> None"
proof (induction fuel arbitrary: obj visited resolved_refs depth)
  case 0
  then show ?case by (simp add: nesting_bound_def)
next
  case (Suc fuel)
  show ?case
  proof (cases obj)
    case (PDict kvs)
    show ?thesis
    proof (cases "dict_get kvs (PStr ''$ref'')")
      case None
      have "deref_items (\<lambda>c v. dereference_object fuel self c v visited (depth + 1)) resolved_refs kvs [] \<noteq> None"
      proof (rule deref_items_returns)
        fix c k v assume "(k, v) \<in> set kvs"
        then have "nesting_bound self v visited < nesting_bound self obj visited"
          using PDict refs_of_item in_dict_size nesting_bound_child by blast
        then show "dereference_object fuel self c v visited (depth + 1) \<noteq> None"
          using Suc.IH Suc.prems by simp
      qed
      then show ?thesis using PDict None by (auto split: option.splits)
    next
      case (Some ref)
      have "resolve_reference_with (dereference_object fuel self) self resolved_refs ref visited \<noteq> None"
      proof (rule resolve_reference_with_returns)
        fix r current
        assume "ref = PStr r" "r \<notin> visited"
          "navigate (spec self) (split_on CHR ''/'' (drop 2 r)) = Some current"
        then have "nesting_bound self current (insert r visited) < nesting_bound self obj visited"
          using PDict Some nesting_bound_jump[of r obj visited self] by simp
        then show "dereference_object fuel self resolved_refs current (insert r visited) 0 \<noteq> None"
          using Suc.IH Suc.prems by simp
      qed
      then show ?thesis using PDict Some by (auto split: option.splits sum.splits)
    qed
  next
    case (PList xs)
    have "deref_list (\<lambda>c v. dereference_object fuel self c v visited (depth + 1)) resolved_refs xs [] \<noteq> None"
    proof (rule deref_list_returns)
      fix c v assume "v \<in> set xs"
      then have "nesting_bound self v visited < nesting_bound self obj visited"
        using PList refs_of_elem elem_size nesting_bound_child by blast
      then show "dereference_object fuel self c v visited (depth + 1) \<noteq> None"
        using Suc.IH Suc.prems by simp
    qed
    then show ?thesis using PList by (auto split: option.splits)
  qed simp_all
qed

lemma nesting_bound_enough_fuel: "nesting_bound self obj {} \<le> enough_fuel self obj"
proof -
  have "card (set (refs_of (spec self)) \<union> set (refs_of obj))
      \<le> length (refs_of (spec self)) + length (refs_of obj)"
    using card_Un_le[of "set (refs_of (spec self))" "set (refs_of obj)"]
      card_length[of "refs_of (spec self)"] card_length[of "refs_of obj"] by linarith
  then have "card (set (refs_of (spec self)) \<union> set (refs_of obj)) * (size (spec self) + 1)
      \<le> (length (refs_of (spec self)) + length (refs_of obj)) * (size (spec self) + 1)"
    by (rule mult_le_mono1)
  then show ?thesis unfolding nesting_bound_def enough_fuel_def by simp
qed

lemma deref_items_mono:
  assumes "deref_items d c kvs res = Some r" and "\<And>c v r. d c v = Some r \<Longrightarrow> d' c v = Some r"
  shows "deref_items d' c kvs res = Some r"
  using assms(1)
proof (induction kvs arbitrary: c res)
  case Nil
  then show ?case by simp
next
  case (Cons a kvs)
  obtain k v where a: "a = (k, v)" by (cases a)
  from Cons.prems a obtain v' c' where step: "d c v = Some (v', c')"
      "deref_items d c' kvs (dict_set res k v') = Some r"
    by (auto split: option.splits)
  have "d' c v = Some (v', c')" using assms(2) step(1) by blast
  then show ?case using Cons.IH[OF step(2)] a by simp
qed

lemma deref_list_mono:
  assumes "deref_list d c xs res = Some r" and "\<And>c v r. d c v = Some r \<Longrightarrow> d' c v = Some r"
  shows "deref_list d' c xs res = Some r"
  using assms(1)
proof (induction xs arbitrary: c res)
  case Nil
  then show ?case by simp
next
  case (Cons x xs)
  from Cons.prems obtain v' c' where step: "d c x = Some (v', c')"
      "deref_list d c' xs (res @ [v']) = Some r"
    by (auto split: option.splits)
  have "d' c x = Some (v', c')" using assms(2) step(1) by blast
  then show ?case using Cons.IH[OF step(2)] by simp
qed

lemma resolve_reference_with_mono:
  assumes "resolve_reference_with d self c ref visited = Some r"
    and "\<And>c v vis depth r. d c v vis depth = Some r \<Longrightarrow> d' c v vis depth = Some r"
  shows "resolve_reference_with d' self c ref visited = Some r"
proof (cases ref)
  case (PStr s)
  show ?thesis
  proof (cases "s \<notin> visited \<and> c s = None \<and> take 2 s = ''#/''
               \<and> navigate (spec self) (split_on CHR ''/'' (drop 2 s)) \<noteq> None")
    case True
    then obtain current where cur: "navigate (spec self) (split_on CHR ''/'' (drop 2 s)) = Some current"
      by auto
    with True assms(1) PStr obtain resolved c' where
      d: "d c current (insert s visited) 0 = Some (resolved, c')"
      and r: "r = (Inr resolved, c'(s \<mapsto> resolved))"
      by (auto simp: resolve_reference_with_def split: option.splits)
    have "d' c current (insert s visited) 0 = Some (resolved, c')" using assms(2) d by blast
    then show ?thesis using True cur PStr r by (simp add: resolve_reference_with_def)
  next
    case False
    then show ?thesis using assms(1) PStr
      by (auto simp: resolve_reference_with_def split: option.splits)
  qed
qed (use assms(1) in \<open>simp_all add: resolve_reference_with_def\<close>)

lemma dereference_object_Suc:
  "dereference_object fuel self c obj visited depth = Some r
     \<Longrightarrow> dereference_object (Suc fuel) self c obj visited depth = Some r"
proof (induction fuel arbitrary: c obj visited depth r)
  case 0
  then show ?case by simp
next
  case (Suc fuel)
  have step: "\<And>c v vis depth r. dereference_object fuel self c v vis depth = Some r
      \<Longrightarrow> dereference_object (Suc fuel) self c v vis depth = Some r"
    using Suc.IH by blast
  show ?case
  proof (cases "depth > 50")
    case True
    then show ?thesis using Suc.prems by simp
  next
    case False
    show ?thesis
    proof (cases obj)
      case (PDict kvs)
      show ?thesis
      proof (cases "dict_get kvs (PStr ''$ref'')")
        case None
        with Suc.prems PDict False obtain result c' where
          l: "deref_items (\<lambda>c v. dereference_object fuel self c v visited (depth + 1)) c kvs []
                = Some (result, c')" and r: "r = (PDict result, c')"
          by (auto split: option.splits)
        have "deref_items (\<lambda>c v. dereference_object (Suc fuel) self c v visited (depth + 1)) c kvs []
                = Some (result, c')"
          by (rule deref_items_mono[OF l]) (rule step)
        then show ?thesis using PDict None False r by simp
      next
        case (Some ref)
        with Suc.prems PDict False obtain res c' where
          l: "resolve_reference_with (dereference_object fuel self) self c ref visited = Some (res, c')"
          and r: "r = (case res of Inr resolved \<Rightarrow> (resolved, c') | Inl e \<Rightarrow> (failed_placeholder self ref, c'))"
          by (auto split: option.splits sum.splits)
        have "resolve_reference_with (dereference_object (Suc fuel) self) self c ref visited = Some (res, c')"
          by (rule resolve_reference_with_mono[OF l]) (rule step)
        then show ?thesis using PDict Some False r by (simp split: sum.splits)
      qed
    next
      case (PList xs)
      with Suc.prems False obtain result c' where
        l: "deref_list (\<lambda>c v. dereference_object fuel self c v visited (depth + 1)) c xs []
              = Some (result, c')" and r: "r = (PList result, c')"
        by (auto split: option.splits)
      have "deref_list (\<lambda>c v. dereference_object (Suc fuel) self c v visited (depth + 1)) c xs []
              = Some (result, c')"
        by (rule deref_list_mono[OF l]) (rule step)
      then show ?thesis using PList False r by simp
    qed (use Suc.prems False in simp_all)
  qed
qed

lemma dereference_object_mono:
  "dereference_object fuel self c obj visited depth = Some r \<Longrightarrow> fuel \<le> fuel'
     \<Longrightarrow> dereference_object fuel' self c obj visited depth = Some r"
proof (induction "fuel' - fuel" arbitrary: fuel')
  case 0
  then show ?case by simp
next
  case (Suc k)
  then obtain m where m: "fuel' = Suc m" "k = m - fuel" "fuel \<le> m"
    by (cases fuel') auto
  then have "dereference_object m self c obj visited depth = Some r"
    using Suc.hyps(1) Suc.prems(1) by blast
  then show ?case using m(1) dereference_object_Suc by blast
qed

lemma dereference_eq:
  assumes "dereference_object fuel self c obj {} 0 = Some r"
  shows "dereference self c obj = r"
proof -
  obtain r' where r': "dereference_object (enough_fuel self obj) self c obj {} 0 = Some r'"
    using dereference_object_returns[OF nesting_bound_enough_fuel] by fastforce
  have "dereference_object (max fuel (enough_fuel self obj)) self c obj {} 0 = Some r"
    using dereference_object_mono[OF assms] by simp
  moreover have "dereference_object (max fuel (enough_fuel self obj)) self c obj {} 0 = Some r'"
    using dereference_object_mono[OF r'] by simp
  ultimately show ?thesis using r' by (simp add: dereference_def)
qed

lemma cache_extends_refl: "cache_extends self visited c c"
  by (auto simp: cache_extends_def)

lemma cache_extends_trans:
  "cache_extends self visited a b \<Longrightarrow> cache_extends self visited b c \<Longrightarrow> cache_extends self visited a c"
  unfolding cache_extends_def by (metis option.exhaust)

lemma cache_extends_weaken:
  "cache_extends self visited c c' \<Longrightarrow> visited' \<subseteq> visited \<Longrightarrow> cache_extends self visited' c c'"
  unfolding cache_extends_def by blast

lemma cache_extends_store:
  assumes "cache_extends self (insert r visited) c c'" "c r = None" "r \<notin> visited" "resolvable self r"
  shows "cache_extends self visited c (c'(r \<mapsto> v))"
  using assms unfolding cache_extends_def by (auto simp: fun_upd_def)

lemma deref_items_extends:
  assumes "deref_items d c kvs res = Some (out, c')"
    and "\<And>c v r c'. d c v = Some (r, c') \<Longrightarrow> cache_extends self visited c c'"
  shows "cache_extends self visited c c'"
  using assms(1)
proof (induction kvs arbitrary: c res)
  case Nil
  then show ?case by (simp add: cache_extends_refl)
next
  case (Cons a kvs)
  obtain k v where a: "a = (k, v)" by (cases a)
  from Cons.prems a obtain v' c1 where step: "d c v = Some (v', c1)"
      "deref_items d c1 kvs (dict_set res k v') = Some (out, c')"
    by (auto split: option.splits)
  show ?case using cache_extends_trans[OF assms(2)[OF step(1)] Cons.IH[OF step(2)]] .
qed

lemma deref_list_extends:
  assumes "deref_list d c xs res = Some (out, c')"
    and "\<And>c v r c'. d c v = Some (r, c') \<Longrightarrow> cache_extends self visited c c'"
  shows "cache_extends self visited c c'"
  using assms(1)
proof (induction xs arbitrary: c res)
  case Nil
  then show ?case by (simp add: cache_extends_refl)
next
  case (Cons x xs)
  from Cons.prems obtain v' c1 where step: "d c x = Some (v', c1)"
      "deref_list d c1 xs (res @ [v']) = Some (out, c')"
    by (auto split: option.splits)
  show ?case using cache_extends_trans[OF assms(2)[OF step(1)] Cons.IH[OF step(2)]] .
qed

lemma resolve_reference_with_extends:
  assumes "resolve_reference_with d self c ref visited = Some (res, c')"
    and "\<And>c v vis r c'. d c v vis 0 = Some (r, c') \<Longrightarrow> cache_extends self vis c c'"
  shows "cache_extends self visited c c'"
proof (cases ref)
  case (PStr s)
  show ?thesis
  proof (cases "s \<notin> visited \<and> c s = None \<and> take 2 s = ''#/''
               \<and> navigate (spec self) (split_on CHR ''/'' (drop 2 s)) \<noteq> None")
    case True
    then obtain current where cur: "navigate (spec self) (split_on CHR ''/'' (drop 2 s)) = Some current"
      by auto
    with True assms(1) PStr obtain resolved c1 where
      d: "d c current (insert s visited) 0 = Some (resolved, c1)"
      and r: "c' = c1(s \<mapsto> resolved)"
      by (auto simp: resolve_reference_with_def split: option.splits)
    have "resolvable self s" using True by (simp add: resolvable_def)
    then show ?thesis using cache_extends_store[OF assms(2)[OF d]] True r by simp
  next
    case False
    then have "c' = c" using assms(1) PStr
      by (auto simp: resolve_reference_with_def split: option.splits if_splits)
    then show ?thesis by (simp add: cache_extends_refl)
  qed
qed (use assms(1) in \<open>auto simp: resolve_reference_with_def cache_extends_refl\<close>)

lemma dereference_object_extends:
  "dereference_object fuel self c obj visited depth = Some (res, c')
     \<Longrightarrow> cache_extends self visited c c'"
proof (induction fuel arbitrary: c obj visited depth res c')
  case 0
  then show ?case by simp
next
  case (Suc fuel)
  show ?case
  proof (cases "depth > 50")
    case True
    then show ?thesis using Suc.prems by (simp add: cache_extends_refl)
  next
    case False
    show ?thesis
    proof (cases obj)
      case (PDict kvs)
      show ?thesis
      proof (cases "dict_get kvs (PStr ''$ref'')")
        case None
        with Suc.prems PDict False obtain result where
          l: "deref_items (\<lambda>c v. dereference_object fuel self c v visited (depth + 1)) c kvs []
                = Some (result, c')"
          by (auto split: option.splits)
        show ?thesis by (rule deref_items_extends[OF l]) (rule Suc.IH)
      next
        case (Some ref)
        with Suc.prems PDict False obtain r where
          l: "resolve_reference_with (dereference_object fuel self) self c ref visited = Some (r, c')"
          by (auto split: option.splits sum.splits)
        show ?thesis by (rule resolve_reference_with_extends[OF l]) (rule Suc.IH)
      qed
    next
      case (PList xs)
      with Suc.prems False obtain result where
        l: "deref_list (\<lambda>c v. dereference_object fuel self c v visited (depth + 1)) c xs []
              = Some (result, c')"
        by (auto split: option.splits)
      show ?thesis by (rule deref_list_extends[OF l]) (rule Suc.IH)
    qed (use Suc.prems False in \<open>auto simp: cache_extends_refl\<close>)
  qed
qed

lemma resolve_reference_extends:
  "resolve_reference fuel self c ref visited = Some (res, c') \<Longrightarrow> cache_extends self visited c c'"
  unfolding resolve_reference_def
  by (erule resolve_reference_with_extends) (rule dereference_object_extends)

lemma dereference_returns:
  "dereference_object (enough_fuel self obj) self c obj {} 0 = Some (dereference self c obj)"
proof -
  obtain r where r: "dereference_object (enough_fuel self obj) self c obj {} 0 = Some r"
    using dereference_object_returns[OF nesting_bound_enough_fuel] by fastforce
  then show ?thesis using dereference_eq by simp
qed

lemma dereference_extends:
  "dereference self c obj = (res, c') \<Longrightarrow> cache_extends self {} c c'"
  using dereference_returns[of self obj c] dereference_object_extends by simp

lemmas eval_resolver = resolve_reference_def resolve_reference_with_def cyclic_doc_def
  circular_placeholder_def unresolved_placeholder_def placeholder_def numeral_eq_Suc

text \<open>
  C3. Dereferencing any node of any document returns, for every cache, chain and depth:
  some bound on the nesting of calls is enough. A ref that is resolved while it is on
  the chain of the active call gives the placeholder tagged as a circular reference,
  with the cache unchanged and whatever the recursive call would do: it is not made.
\<close>

theorem dereferencing_terminates:
  "(\<exists>fuel res. dereference_object fuel self resolved_refs obj visited depth = Some res)
   \<and> (r \<in> visited \<longrightarrow>
        resolve_reference_with deref self resolved_refs (PStr r) visited
          = Some (Inr (circular_placeholder r), resolved_refs))"
proof
  show "\<exists>fuel res. dereference_object fuel self resolved_refs obj visited depth = Some res"
    using dereference_object_returns[of self obj visited "nesting_bound self obj visited"
        resolved_refs depth]
    by fastforce
  show "r \<in> visited \<longrightarrow>
        resolve_reference_with deref self resolved_refs (PStr r) visited
          = Some (Inr (circular_placeholder r), resolved_refs)"
    by (simp add: resolve_reference_with_def)
qed

theorem dereferencing_terminates_witness:
  "(\<exists>fuel res. dereference_object fuel cyclic_doc Map.empty
        (PDict [(PStr ''$ref'', PStr ''#/B'')]) {''#/A''} 0 = Some res)
   \<and> ''#/A'' \<in> {''#/A''}
   \<and> resolve_reference_with (\<lambda>c v vis d. None) cyclic_doc Map.empty (PStr ''#/A'') {''#/A''}
        = Some (Inr (circular_placeholder ''#/A''), Map.empty)"
  using dereferencing_terminates[where self = cyclic_doc and resolved_refs = Map.empty
      and obj = "PDict [(PStr ''$ref'', PStr ''#/B'')]" and visited = "{''#/A''}" and depth = 0
      and r = "''#/A''" and deref = "\<lambda>c v vis d. None"]
  by simp

text \<open>The cycle A, B, A: dereferencing a ref to A ends with the placeholder in place of A.\<close>

lemma cycle_example:
  "dereference cyclic_doc Map.empty (PDict [(PStr ''$ref'', PStr ''#/A'')])
   = (PDict [(PStr ''b'', PDict [(PStr ''a'', circular_placeholder ''#/A'')])],
       [''#/B'' \<mapsto> PDict [(PStr ''a'', circular_placeholder ''#/A'')],
        ''#/A'' \<mapsto> PDict [(PStr ''b'', PDict [(PStr ''a'', circular_placeholder ''#/A'')])]])"
  by (simp add: dereference_def enough_fuel_def eval_resolver)

section \<open>The cache\<close>

text \<open>
  C2 (as amended). The cache gains entries only for refs whose target was found in the
  document. A resolution that answers with the circular-reference or the
  unresolved-reference placeholder for its ref, or that fails on a reference that is not
  internal, leaves the cache as it was, so a later call attempts that ref again. A ref
  whose target is found is cached with the dereferenced target as it is, and a cached
  ref is answered from the cache.
\<close>

theorem cache_gains_found_refs_only:
  "(resolve_reference fuel self c ref visited = Some (res, c')
      \<longrightarrow> (\<forall>k. c k = None \<and> c' k \<noteq> None \<longrightarrow> resolvable self k))
   \<and> (dereference_object fuel self c obj visited depth = Some (out, c'')
      \<longrightarrow> (\<forall>k. c k = None \<and> c'' k \<noteq> None \<longrightarrow> resolvable self k))
   \<and> (r \<in> visited
      \<longrightarrow> resolve_reference fuel self c (PStr r) visited
            = Some (Inr (circular_placeholder r), c))
   \<and> (r \<notin> visited \<and> c r = None \<and> take 2 r \<noteq> ''#/''
      \<longrightarrow> resolve_reference fuel self c (PStr r) visited
            = Some (Inl (ValueError (''Only internal references supported: '' @ r)), c))
   \<and> (r \<notin> visited \<and> c r = None \<and> take 2 r = ''#/''
        \<and> navigate (spec self) (split_on CHR ''/'' (drop 2 r)) = None
      \<longrightarrow> resolve_reference fuel self c (PStr r) visited
            = Some (Inr (unresolved_placeholder r), c))
   \<and> (r \<notin> visited \<and> c r = None \<and> take 2 r = ''#/''
        \<and> navigate (spec self) (split_on CHR ''/'' (drop 2 r)) = Some current
        \<and> dereference_object fuel self c current (insert r visited) 0 = Some (resolved, c1)
      \<longrightarrow> resolve_reference fuel self c (PStr r) visited
            = Some (Inr resolved, c1(r \<mapsto> resolved)))
   \<and> (r \<notin> visited \<and> c r = Some cached
      \<longrightarrow> resolve_reference fuel self c (PStr r) visited = Some (Inr cached, c))"
proof (intro conjI impI)
  assume "resolve_reference fuel self c ref visited = Some (res, c')"
  then show "\<forall>k. c k = None \<and> c' k \<noteq> None \<longrightarrow> resolvable self k"
    using resolve_reference_extends unfolding cache_extends_def by blast
next
  assume "dereference_object fuel self c obj visited depth = Some (out, c'')"
  then show "\<forall>k. c k = None \<and> c'' k \<noteq> None \<longrightarrow> resolvable self k"
    using dereference_object_extends unfolding cache_extends_def by blast
qed (simp_all add: resolve_reference_def resolve_reference_with_def)

theorem cache_gains_found_refs_only_witness:
  "resolvable cyclic_doc ''#/B''
   \<and> resolve_reference 0 cyclic_doc Map.empty (PStr ''#/A'') {''#/A''}
       = Some (Inr (circular_placeholder ''#/A''), Map.empty)
   \<and> resolve_reference 0 cyclic_doc Map.empty (PStr ''other.json#/A'') {}
       = Some (Inl (ValueError ''Only internal references supported: other.json#/A''), Map.empty)
   \<and> resolve_reference 0 cyclic_doc Map.empty (PStr ''#/C'') {}
       = Some (Inr (unresolved_placeholder ''#/C''), Map.empty)"
proof -
  have run: "resolve_reference 5 cyclic_doc Map.empty (PStr ''#/A'') {}
      = Some (Inr (PDict [(PStr ''b'', PDict [(PStr ''a'', circular_placeholder ''#/A'')])]),
          [''#/B'' \<mapsto> PDict [(PStr ''a'', circular_placeholder ''#/A'')],
           ''#/A'' \<mapsto> PDict [(PStr ''b'', PDict [(PStr ''a'', circular_placeholder ''#/A'')])]])"
    by (simp add: eval_resolver)
  have "resolvable cyclic_doc ''#/B''"
    using cache_gains_found_refs_only[where fuel = 5 and self = cyclic_doc and c = Map.empty
        and ref = "PStr ''#/A''" and visited = "{}"
        and res = "Inr (PDict [(PStr ''b'', PDict [(PStr ''a'', circular_placeholder ''#/A'')])])"
        and c' = "[''#/B'' \<mapsto> PDict [(PStr ''a'', circular_placeholder ''#/A'')],
          ''#/A'' \<mapsto> PDict [(PStr ''b'', PDict [(PStr ''a'', circular_placeholder ''#/A'')])]]"]
      run
    by simp
  moreover have "resolve_reference 0 cyclic_doc Map.empty (PStr ''#/A'') {''#/A''}
       = Some (Inr (circular_placeholder ''#/A''), Map.empty)"
    using cache_gains_found_refs_only[where fuel = 0 and self = cyclic_doc and c = Map.empty
        and visited = "{''#/A''}" and r = "''#/A''"]
    by simp
  moreover have "resolve_reference 0 cyclic_doc Map.empty (PStr ''other.json#/A'') {}
       = Some (Inl (ValueError ''Only internal references supported: other.json#/A''), Map.empty)"
    using cache_gains_found_refs_only[where fuel = 0 and self = cyclic_doc and c = Map.empty
        and visited = "{}" and r = "''other.json#/A''"]
    by simp
  moreover have "resolve_reference 0 cyclic_doc Map.empty (PStr ''#/C'') {}
       = Some (Inr (unresolved_placeholder ''#/C''), Map.empty)"
    using cache_gains_found_refs_only[where fuel = 0 and self = cyclic_doc and c = Map.empty
        and visited = "{}" and r = "''#/C''"]
    by (simp add: cyclic_doc_def)
  ultimately show ?thesis by blast
qed

text \<open>
  C2 as stated fails. Resolving A in the cyclic document caches B with the circular
  placeholder for A inside it, and a later top-level resolution of B, on an empty chain,
  returns this cached node and attempts nothing again.
\<close>

theorem cached_placeholder_counterexample:
  "(case resolve_reference 5 cyclic_doc Map.empty (PStr ''#/A'') {} of
      Some (res, c) \<Rightarrow>
        c ''#/B'' = Some (PDict [(PStr ''a'', circular_placeholder ''#/A'')])
        \<and> resolve_reference 5 cyclic_doc c (PStr ''#/B'') {}
            = Some (Inr (PDict [(PStr ''a'', circular_placeholder ''#/A'')]), c)
    | None \<Rightarrow> False)"
  by (simp add: eval_resolver)

text \<open>On a fresh cache the same ref to B resolves one level further.\<close>

lemma fresh_resolution_example:
  "resolve_reference 5 cyclic_doc Map.empty (PStr ''#/B'') {}
   = Some (Inr (PDict [(PStr ''a'', PDict [(PStr ''b'', circular_placeholder ''#/B'')])]),
       [''#/A'' \<mapsto> PDict [(PStr ''b'', circular_placeholder ''#/B'')],
        ''#/B'' \<mapsto> PDict [(PStr ''a'', PDict [(PStr ''b'', circular_placeholder ''#/B'')])]])"
  by (simp add: eval_resolver)

section \<open>Idempotence of resolution\<close>

lemma resolve_reference_cases:
  assumes "resolve_reference fuel self c ref {} = Some (res, c1)"
  shows "(\<exists>s v. ref = PStr s \<and> res = Inr v \<and> c1 s = Some v)
       \<or> (c1 = c \<and> (\<forall>s. ref = PStr s \<longrightarrow> c s = None \<and> \<not> resolvable self s)
           \<and> (\<forall>fuel' c2. (\<forall>s. ref = PStr s \<longrightarrow> c2 s = None)
                 \<longrightarrow> resolve_reference fuel' self c2 ref {} = Some (res, c2)))"
proof (cases ref)
  case (PStr s)
  show ?thesis
  proof (cases "c s")
    case (Some v)
    then show ?thesis using assms PStr
      by (auto simp: resolve_reference_def resolve_reference_with_def)
  next
    case None
    show ?thesis
    proof (cases "resolvable self s")
      case True
      then show ?thesis using assms PStr None
        by (auto simp: resolve_reference_def resolve_reference_with_def resolvable_def
            split: option.splits)
    next
      case False
      then show ?thesis using assms PStr None
        by (auto simp: resolve_reference_def resolve_reference_with_def resolvable_def
            split: option.splits if_splits)
    qed
  qed
qed (use assms in \<open>auto simp: resolve_reference_def resolve_reference_with_def\<close>)

text \<open>
  C7. After a top-level call resolving a ref, a second top-level call returns the same
  result and leaves the cache as it is, and so does every later top-level call of the
  run, whatever was resolved in between (the cache has then been extended).
\<close>

theorem resolve_reference_idempotent:
  assumes "resolve_reference fuel self c ref {} = Some (res, c1)"
  shows "resolve_reference fuel' self c1 ref {} = Some (res, c1)
       \<and> (\<forall>c2 fuel''. cache_extends self {} c1 c2
            \<longrightarrow> resolve_reference fuel'' self c2 ref {} = Some (res, c2))"
proof -
  have later: "resolve_reference fuel'' self c2 ref {} = Some (res, c2)"
    if ext: "cache_extends self {} c1 c2" for c2 fuel''
  proof -
    from resolve_reference_cases[OF assms] show ?thesis
    proof
      assume "\<exists>s v. ref = PStr s \<and> res = Inr v \<and> c1 s = Some v"
      then obtain s v where sv: "ref = PStr s" "res = Inr v" "c1 s = Some v" by blast
      then have "c2 s = Some v" using ext unfolding cache_extends_def by blast
      then show ?thesis using sv by (simp add: resolve_reference_def resolve_reference_with_def)
    next
      assume a: "c1 = c \<and> (\<forall>s. ref = PStr s \<longrightarrow> c s = None \<and> \<not> resolvable self s)
           \<and> (\<forall>fuel' c2. (\<forall>s. ref = PStr s \<longrightarrow> c2 s = None)
                 \<longrightarrow> resolve_reference fuel' self c2 ref {} = Some (res, c2))"
      have "\<forall>s. ref = PStr s \<longrightarrow> c2 s = None"
        using a ext unfolding cache_extends_def by blast
      then show ?thesis using a by blast
    qed
  qed
  show ?thesis using later cache_extends_refl by blast
qed

theorem resolve_reference_idempotent_witness:
  "resolve_reference 5 cyclic_doc Map.empty (PStr ''#/A'') {}
     = Some (Inr (PDict [(PStr ''b'', PDict [(PStr ''a'', circular_placeholder ''#/A'')])]),
         [''#/B'' \<mapsto> PDict [(PStr ''a'', circular_placeholder ''#/A'')],
          ''#/A'' \<mapsto> PDict [(PStr ''b'', PDict [(PStr ''a'', circular_placeholder ''#/A'')])]])
   \<and> resolve_reference 0 cyclic_doc
        [''#/B'' \<mapsto> PDict [(PStr ''a'', circular_placeholder ''#/A'')],
         ''#/A'' \<mapsto> PDict [(PStr ''b'', PDict [(PStr ''a'', circular_placeholder ''#/A'')])]]
        (PStr ''#/A'') {}
     = Some (Inr (PDict [(PStr ''b'', PDict [(PStr ''a'', circular_placeholder ''#/A'')])]),
         [''#/B'' \<mapsto> PDict [(PStr ''a'', circular_placeholder ''#/A'')],
          ''#/A'' \<mapsto> PDict [(PStr ''b'', PDict [(PStr ''a'', circular_placeholder ''#/A'')])]])"
proof -
  have run: "resolve_reference 5 cyclic_doc Map.empty (PStr ''#/A'') {}
     = Some (Inr (PDict [(PStr ''b'', PDict [(PStr ''a'', circular_placeholder ''#/A'')])]),
         [''#/B'' \<mapsto> PDict [(PStr ''a'', circular_placeholder ''#/A'')],
          ''#/A'' \<mapsto> PDict [(PStr ''b'', PDict [(PStr ''a'', circular_placeholder ''#/A'')])]])"
    by (simp add: eval_resolver)
  show ?thesis using run resolve_reference_idempotent[OF run, of 0] by blast
qed

section \<open>Selection of the response schema\<close>

lemma find_response_none:
  "\<forall>n \<in> set codes. \<not> has_key d (PStr (str_of_nat n)) \<Longrightarrow> find_response codes (PDict d) = Inr PNone"
  by (induction codes) auto

lemma find_response_first:
  assumes "\<forall>m \<in> set before. \<not> has_key d (PStr (str_of_nat m))"
    and "dict_get d (PStr (str_of_nat n)) = Some data"
  shows "find_response (before @ n # after) (PDict d) = Inr data"
  using assms by (induction before) (auto simp: has_key_def)

lemma success_codes_split:
  assumes "200 \<le> n" "n < 300"
  shows "success_codes = [200..<n] @ n # [Suc n..<300]"
proof -
  have "[200..<300] = [200..<n] @ [n..<300]"
    using assms upt_add_eq_append[of 200 n "300 - n"] by (simp del: upt_rec_numeral)
  moreover have "[n..<300] = n # [Suc n..<300]"
    using assms(2) by (rule upt_conv_Cons)
  ultimately show ?thesis unfolding success_codes_def by (simp del: upt_rec_numeral)
qed

lemma preferred_schema_skip:
  "\<not> has_key ct (PStr m) \<Longrightarrow> preferred_schema (m # ms) (PDict ct) = preferred_schema ms (PDict ct)"
  by simp

lemma preferred_schema_hit:
  "dict_get ct (PStr m) = Some media_info
     \<Longrightarrow> preferred_schema (m # ms) (PDict ct) = Inr (safe_get media_info ''schema'' (PDict []))"
  by (simp add: has_key_def)

lemma first_available_schema_Cons:
  "first_available_schema (PDict ((k, media_info) # rest)) = Inr (safe_get media_info ''schema'' (PDict []))"
  by (simp add: first_available_schema_def)

text \<open>
  C4. Let the responses of an operation dereference to a map. When no code from 200 to
  299 is a key of it, the response schema is the empty object. Otherwise the least such
  code that is a key selects the response, and within a response whose content is a map
  the schema comes from \<^verbatim>\<open>application/json\<close> when that is a key, else from
  \<^verbatim>\<open>text/plain\<close>, else from \<^verbatim>\<open>application/xml\<close>, else from the first key of the
  content (each case stated for a truthy schema, which is then converted).
\<close>

theorem response_schema_selection:
  assumes "truthy responses" and "dereference self c responses = (PDict d, c')"
  shows
    "((\<forall>n \<in> set success_codes. \<not> has_key d (PStr (str_of_nat n)))
        \<longrightarrow> convert_response_to_json_schema self c responses = (PDict [], c'))
   \<and> (\<forall>n data. 200 \<le> n \<and> n < 300 \<and> dict_get d (PStr (str_of_nat n)) = Some data
          \<and> (\<forall>m \<in> set [200..<n]. \<not> has_key d (PStr (str_of_nat m)))
        \<longrightarrow> convert_response_to_json_schema self c responses = (response_schema data, c')
          \<and> (\<forall>ct. truthy data \<and> safe_get data ''content'' (PDict []) = PDict ct \<longrightarrow>
                (\<forall>mi s. dict_get ct (PStr ''application/json'') = Some mi
                     \<and> safe_get mi ''schema'' (PDict []) = s \<and> truthy s
                   \<longrightarrow> response_schema data = convert_openapi_schema_to_json_schema s)
              \<and> (\<forall>mi s. \<not> has_key ct (PStr ''application/json'')
                     \<and> dict_get ct (PStr ''text/plain'') = Some mi
                     \<and> safe_get mi ''schema'' (PDict []) = s \<and> truthy s
                   \<longrightarrow> response_schema data = convert_openapi_schema_to_json_schema s)
              \<and> (\<forall>mi s. \<not> has_key ct (PStr ''application/json'')
                     \<and> \<not> has_key ct (PStr ''text/plain'')
                     \<and> dict_get ct (PStr ''application/xml'') = Some mi
                     \<and> safe_get mi ''schema'' (PDict []) = s \<and> truthy s
                   \<longrightarrow> response_schema data = convert_openapi_schema_to_json_schema s)
              \<and> (\<forall>k mi rest s. \<not> has_key ct (PStr ''application/json'')
                     \<and> \<not> has_key ct (PStr ''text/plain'')
                     \<and> \<not> has_key ct (PStr ''application/xml'')
                     \<and> ct = (k, mi) # rest
                     \<and> safe_get mi ''schema'' (PDict []) = s \<and> truthy s
                   \<longrightarrow> response_schema data = convert_openapi_schema_to_json_schema s)))"
proof (intro conjI allI impI)
  assume "\<forall>n \<in> set success_codes. \<not> has_key d (PStr (str_of_nat n))"
  then have "find_response success_codes (PDict d) = Inr PNone" by (rule find_response_none)
  then show "convert_response_to_json_schema self c responses = (PDict [], c')"
    using assms by (simp add: convert_response_to_json_schema_def response_schema_def)
next
  fix n data
  assume a: "200 \<le> n \<and> n < 300 \<and> dict_get d (PStr (str_of_nat n)) = Some data
          \<and> (\<forall>m \<in> set [200..<n]. \<not> has_key d (PStr (str_of_nat m)))"
  then have "find_response ([200..<n] @ n # [Suc n..<300]) (PDict d) = Inr data"
    using find_response_first by blast
  then have "find_response success_codes (PDict d) = Inr data"
    using success_codes_split[of n] a by simp
  then show "convert_response_to_json_schema self c responses = (response_schema data, c')"
    using assms by (simp add: convert_response_to_json_schema_def)
next
  fix n data ct mi s
  assume "truthy data \<and> safe_get data ''content'' (PDict []) = PDict ct"
    and "dict_get ct (PStr ''application/json'') = Some mi
           \<and> safe_get mi ''schema'' (PDict []) = s \<and> truthy s"
  then show "response_schema data = convert_openapi_schema_to_json_schema s"
    by (simp add: response_schema_def schema_from_content_def preferred_schema_hit
        convert_schema_or_empty_def del: preferred_schema.simps)
next
  fix n data ct mi s
  assume "truthy data \<and> safe_get data ''content'' (PDict []) = PDict ct"
    and "\<not> has_key ct (PStr ''application/json'')
           \<and> dict_get ct (PStr ''text/plain'') = Some mi
           \<and> safe_get mi ''schema'' (PDict []) = s \<and> truthy s"
  then show "response_schema data = convert_openapi_schema_to_json_schema s"
    by (simp add: response_schema_def schema_from_content_def preferred_schema_hit
        preferred_schema_skip convert_schema_or_empty_def del: preferred_schema.simps)
next
  fix n data ct mi s
  assume "truthy data \<and> safe_get data ''content'' (PDict []) = PDict ct"
    and "\<not> has_key ct (PStr ''application/json'')
           \<and> \<not> has_key ct (PStr ''text/plain'')
           \<and> dict_get ct (PStr ''application/xml'') = Some mi
           \<and> safe_get mi ''schema'' (PDict []) = s \<and> truthy s"
  then show "response_schema data = convert_openapi_schema_to_json_schema s"
    by (simp add: response_schema_def schema_from_content_def preferred_schema_hit
        preferred_schema_skip convert_schema_or_empty_def del: preferred_schema.simps)
next
  fix n data ct k mi rest s
  assume d: "truthy data \<and> safe_get data ''content'' (PDict []) = PDict ct"
    and a: "\<not> has_key ct (PStr ''application/json'')
           \<and> \<not> has_key ct (PStr ''text/plain'')
           \<and> \<not> has_key ct (PStr ''application/xml'')
           \<and> ct = (k, mi) # rest
           \<and> safe_get mi ''schema'' (PDict []) = s \<and> truthy s"
  have nokeys: "\<not> has_key ct (PStr ''application/json'')" "\<not> has_key ct (PStr ''text/plain'')"
      "\<not> has_key ct (PStr ''application/xml'')"
    using a by blast+
  have "preferred_schema [''application/json'', ''text/plain'', ''application/xml''] (PDict ct)
      = Inr (PDict [])"
    using nokeys by simp
  moreover have "first_available_schema (PDict ct) = Inr s"
    using a first_available_schema_Cons by blast
  moreover have "truthy (PDict ct)" using a by simp
  moreover have "truthy s" using a by blast
  ultimately show "response_schema data = convert_openapi_schema_to_json_schema s"
    using d by (simp add: response_schema_def schema_from_content_def
        convert_schema_or_empty_def del: preferred_schema.simps)
qed

text \<open>Responses with the codes 404 and 201 only: the response under 201 is selected.\<close>

theorem response_schema_selection_witness:
  "convert_response_to_json_schema empty_doc Map.empty example_responses
     = (convert_openapi_schema_to_json_schema (PDict [(PStr ''type'', PStr ''integer'')]), Map.empty)"
proof -
  let ?mi = "PDict [(PStr ''schema'', PDict [(PStr ''type'', PStr ''integer'')])]"
  let ?ct = "[(PStr ''application/json'', ?mi)]"
  let ?data = "PDict [(PStr ''content'', PDict ?ct)]"
  let ?d = "[(PStr ''404'', PDict [(PStr ''description'', PStr ''Not found'')]), (PStr ''201'', ?data)]"
  have tr: "truthy example_responses" by (simp add: example_responses_def)
  have deref: "dereference empty_doc Map.empty example_responses = (PDict ?d, Map.empty)"
    by (simp add: dereference_def enough_fuel_def empty_doc_def example_responses_def numeral_eq_Suc)
  have pre: "200 \<le> (201::nat) \<and> (201::nat) < 300 \<and> dict_get ?d (PStr (str_of_nat 201)) = Some ?data
      \<and> (\<forall>m \<in> set [200..<201]. \<not> has_key ?d (PStr (str_of_nat m)))"
    by (simp add: str_of_nat.simps digit_char_def has_key_def)
  have pre2: "truthy ?data \<and> safe_get ?data ''content'' (PDict []) = PDict ?ct"
    by (simp add: safe_get_def dict_get_default_def)
  have pre3: "dict_get ?ct (PStr ''application/json'') = Some ?mi
      \<and> safe_get ?mi ''schema'' (PDict []) = PDict [(PStr ''type'', PStr ''integer'')]
      \<and> truthy (PDict [(PStr ''type'', PStr ''integer'')])"
    by (simp add: safe_get_def dict_get_default_def)
  note sel = response_schema_selection[OF tr deref, THEN conjunct2, THEN spec, THEN spec, THEN mp, OF pre]
  note pick = sel[THEN conjunct2, THEN spec, THEN mp, OF pre2, THEN conjunct1, THEN spec, THEN spec,
      THEN mp, OF pre3]
  show ?thesis using sel[THEN conjunct1] pick by simp
qed

section \<open>Server resolution\<close>

lemma level_servers_dict:
  "level_servers (PDict level) servers =
     (if list_or_empty (safe_get (PDict level) ''servers'' (PList [])) \<noteq> []
      then list_or_empty (safe_get (PDict level) ''servers'' (PList [])) else servers)"
  by (cases level)
     (auto simp: level_servers_def list_or_empty_def safe_get_def dict_get_default_def
       split: pyval.splits option.splits)

lemma override_servers_nonempty: "override_servers self servers = [] \<longleftrightarrow> servers = []"
  by (simp add: override_servers_def split: option.splits)

lemma override_servers_all:
  "base_url self = Some b \<Longrightarrow> b \<noteq> [] \<Longrightarrow> s \<in> set (override_servers self servers)
     \<Longrightarrow> server_url s = PStr b \<and> server_description s = PStr (''Base URL override: '' @ b)"
  by (auto simp: override_servers_def)

lemma override_servers_none:
  "base_url self = None \<or> base_url self = Some [] \<Longrightarrow> override_servers self servers = servers"
  by (auto simp: override_servers_def)

text \<open>
  C5. For a path item and an operation that are maps, the working list is the
  operation-level list when that is a non-empty list, else the path-level list when that
  is a non-empty list, else the root-level list: a replacement, never a merge. An empty
  working list gives exactly one server, the placeholder with the empty url when no
  override is set. A single server that dereferences to a map gives exactly its formatted
  entry. A non-empty base-URL override sets the url of every resulting server to the
  override and its description to the override note.
\<close>

theorem server_resolution:
  "select_servers self (PDict path_item) (PDict operation)
     = (if list_or_empty (safe_get (PDict operation) ''servers'' (PList [])) \<noteq> []
        then list_or_empty (safe_get (PDict operation) ''servers'' (PList []))
        else if list_or_empty (safe_get (PDict path_item) ''servers'' (PList [])) \<noteq> []
        then list_or_empty (safe_get (PDict path_item) ''servers'' (PList []))
        else list_or_empty (safe_get (spec self) ''servers'' (PList [])))
   \<and> (select_servers self path_level operation_level = []
        \<longrightarrow> length (fst (extract_servers self c path_level operation_level)) = 1
          \<and> (base_url self = None \<or> base_url self = Some []
               \<longrightarrow> extract_servers self c path_level operation_level = ([default_server], c)))
   \<and> server_url default_server = PStr []
   \<and> (\<forall>server sd c'. select_servers self path_level operation_level = [server]
          \<and> dereference self c server = (PDict sd, c')
          \<and> (base_url self = None \<or> base_url self = Some [])
        \<longrightarrow> extract_servers self c path_level operation_level
              = ([\<lparr>server_url = safe_get (PDict sd) ''url'' (PStr []),
                    server_description = safe_get (PDict sd) ''description'' (PStr []),
                    server_variables = safe_get (PDict sd) ''variables'' (PDict [])\<rparr>], c'))
   \<and> (\<forall>b. base_url self = Some b \<and> b \<noteq> []
        \<longrightarrow> (\<forall>s \<in> set (fst (extract_servers self c path_level operation_level)).
               server_url s = PStr b
               \<and> server_description s = PStr (''Base URL override: '' @ b)))"
proof (intro conjI allI impI ballI)
  show "select_servers self (PDict path_item) (PDict operation)
     = (if list_or_empty (safe_get (PDict operation) ''servers'' (PList [])) \<noteq> []
        then list_or_empty (safe_get (PDict operation) ''servers'' (PList []))
        else if list_or_empty (safe_get (PDict path_item) ''servers'' (PList [])) \<noteq> []
        then list_or_empty (safe_get (PDict path_item) ''servers'' (PList []))
        else list_or_empty (safe_get (spec self) ''servers'' (PList [])))"
    by (simp add: select_servers_def level_servers_dict Let_def list_or_empty_def
        split: pyval.splits)
next
  assume "select_servers self path_level operation_level = []"
  then show "length (fst (extract_servers self c path_level operation_level)) = 1"
    by (simp add: extract_servers_def override_servers_def Let_def split: option.splits)
next
  assume "select_servers self path_level operation_level = []"
    and "base_url self = None \<or> base_url self = Some []"
  then show "extract_servers self c path_level operation_level = ([default_server], c)"
    by (simp add: extract_servers_def override_servers_none Let_def)
next
  show "server_url default_server = PStr []" by (simp add: default_server_def)
next
  fix server sd c'
  assume "select_servers self path_level operation_level = [server]
          \<and> dereference self c server = (PDict sd, c')
          \<and> (base_url self = None \<or> base_url self = Some [])"
  then show "extract_servers self c path_level operation_level
              = ([\<lparr>server_url = safe_get (PDict sd) ''url'' (PStr []),
                    server_description = safe_get (PDict sd) ''description'' (PStr []),
                    server_variables = safe_get (PDict sd) ''variables'' (PDict [])\<rparr>], c')"
    by (simp add: extract_servers_def override_servers_none Let_def)
next
  fix b s
  assume "base_url self = Some b \<and> b \<noteq> []"
    and "s \<in> set (fst (extract_servers self c path_level operation_level))"
  then show "server_url s = PStr b" "server_description s = PStr (''Base URL override: '' @ b)"
    using override_servers_all[of self b s]
    by (auto simp: extract_servers_def Let_def split: prod.splits if_splits)
qed

text \<open>
  The root list [R], the path list [] and the operation list [O] give exactly [O]; the
  empty document gives the placeholder; with an override every url is the override.
\<close>

theorem server_resolution_witness:
  "select_servers servers_doc example_path_item example_operation
     = [PDict [(PStr ''url'', PStr ''https://o.example.com/'')]]
   \<and> extract_servers servers_doc Map.empty example_path_item example_operation
     = ([\<lparr>server_url = PStr ''https://o.example.com/'', server_description = PStr [],
           server_variables = PDict []\<rparr>], Map.empty)
   \<and> extract_servers empty_doc Map.empty (PDict []) (PDict []) = ([default_server], Map.empty)
   \<and> list_all (\<lambda>s. server_url s = PStr ''https://b.example.com''
                     \<and> server_description s = PStr ''Base URL override: https://b.example.com'')
        (fst (extract_servers (servers_doc\<lparr>base_url := Some ''https://b.example.com''\<rparr>)
                Map.empty example_path_item example_operation))"
proof -
  let ?O = "PDict [(PStr ''url'', PStr ''https://o.example.com/'')]"
  have sel: "select_servers servers_doc example_path_item example_operation = [?O]"
    using server_resolution[where self = servers_doc
        and path_item = "[(PStr ''servers'', PList []), (PStr ''get'', PDict [])]"
        and operation = "[(PStr ''servers'', PList [?O])]", THEN conjunct1]
    by (simp add: example_path_item_def example_operation_def servers_doc_def list_or_empty_def
        safe_get_def dict_get_default_def)
  have deref: "dereference servers_doc Map.empty ?O = (?O, Map.empty)"
    by (simp add: dereference_def enough_fuel_def servers_doc_def numeral_eq_Suc)
  have one: "extract_servers servers_doc Map.empty example_path_item example_operation
     = ([\<lparr>server_url = PStr ''https://o.example.com/'', server_description = PStr [],
           server_variables = PDict []\<rparr>], Map.empty)"
    using server_resolution[where self = servers_doc and path_level = example_path_item
        and operation_level = example_operation and c = Map.empty,
        THEN conjunct2, THEN conjunct2, THEN conjunct2, THEN conjunct1, THEN spec, THEN spec,
        THEN spec, THEN mp, of ?O "[(PStr ''url'', PStr ''https://o.example.com/'')]" Map.empty]
      sel deref
    by (simp add: servers_doc_def safe_get_def dict_get_default_def)
  have none: "extract_servers empty_doc Map.empty (PDict []) (PDict []) = ([default_server], Map.empty)"
    using server_resolution[where self = empty_doc and path_level = "PDict []"
        and operation_level = "PDict []" and c = Map.empty and path_item = "[]" and operation = "[]"]
    by (simp add: empty_doc_def list_or_empty_def safe_get_def dict_get_default_def)
  have over: "\<forall>s \<in> set (fst (extract_servers (servers_doc\<lparr>base_url := Some ''https://b.example.com''\<rparr>)
                          Map.empty example_path_item example_operation)).
         server_url s = PStr ''https://b.example.com''
         \<and> server_description s = PStr ''Base URL override: https://b.example.com''"
    using server_resolution[where self = "servers_doc\<lparr>base_url := Some ''https://b.example.com''\<rparr>"
        and path_level = example_path_item and operation_level = example_operation
        and c = Map.empty]
    by simp
  show ?thesis using sel one none over by (simp add: list_all_iff)
qed

section \<open>Operation descriptors\<close>

lemma convert_is_dict: "\<exists>kvs. convert_openapi_schema_to_json_schema schema = PDict kvs"
  by (subst convert_openapi_schema_to_json_schema.simps)
     (auto simp: string_schema_def convert_body_def Let_def split: sum.splits pyval.splits)

lemma apply_parameter_properties:
  "fst (apply_parameter (properties, required) d)
     = (case parameter_entry d of
          Some (nm, prop) \<Rightarrow> dict_set properties nm prop
        | None \<Rightarrow> properties)"
proof -
  obtain kvs where kvs: "convert_openapi_schema_to_json_schema (safe_get d ''schema'' (PDict [])) = PDict kvs"
    using convert_is_dict by blast
  show ?thesis
    by (simp add: apply_parameter_def convert_parameter_def parameter_entry_def Let_def kvs
        dict_setitem_def)
qed

lemma convert_parameters_loop_fold:
  "convert_parameters_loop self c params acc
     = (foldl apply_parameter acc (fst (dereference_all self c params)),
        snd (dereference_all self c params))"
  by (induction params arbitrary: c acc)
     (auto simp: apply_parameter_def Let_def split: prod.splits)

lemma foldl_apply_parameter_keeps:
  assumes "\<forall>d \<in> set ds. \<forall>nm' prop'. parameter_entry d = Some (nm', prop') \<longrightarrow> \<not> key_eq nm' nm"
  shows "dict_get (fst (foldl apply_parameter acc ds)) nm = dict_get (fst acc) nm"
  using assms
proof (induction ds arbitrary: acc)
  case Nil
  show ?case by simp
next
  case (Cons d ds)
  obtain properties required where acc: "acc = (properties, required)" by (cases acc)
  have "dict_get (fst (apply_parameter acc d)) nm = dict_get (fst acc) nm"
    using Cons.prems acc
    by (auto simp: apply_parameter_properties dict_get_dict_set split: option.splits)
  then show ?case using Cons by simp
qed

lemma foldl_apply_parameter_last:
  assumes "parameter_entry d = Some (nm, prop)"
    and "\<forall>d' \<in> set after. \<forall>nm' prop'. parameter_entry d' = Some (nm', prop') \<longrightarrow> \<not> key_eq nm' nm"
  shows "dict_get (fst (foldl apply_parameter acc (before @ d # after))) nm = Some prop"
proof -
  obtain properties required where acc: "foldl apply_parameter acc before = (properties, required)"
    by (cases "foldl apply_parameter acc before")
  have "dict_get (fst (apply_parameter (properties, required) d)) nm = Some prop"
    using assms(1) by (simp add: apply_parameter_properties dict_get_dict_set)
  then show ?thesis
    using foldl_apply_parameter_keeps[OF assms(2)] acc by simp
qed

lemma foldl_apply_parameter_empty:
  assumes "\<forall>d \<in> set ds. parameter_entry d = None"
  shows "fst (foldl apply_parameter (properties, required) ds) = properties"
  using assms
proof (induction ds arbitrary: properties required)
  case Nil
  show ?case by simp
next
  case (Cons d ds)
  obtain p' r' where step: "apply_parameter (properties, required) d = (p', r')"
    by (cases "apply_parameter (properties, required) d")
  have "p' = properties"
    using apply_parameter_properties[of properties required d] step Cons.prems by simp
  then show ?case using Cons step by simp
qed

lemma process_operation_success:
  assumes "process_operation self c (PStr ep) item m op = (Inr (info, tags), c')"
  shows "\<exists>base. first_base_url (fst (extract_servers self c item op)) = Inr base
           \<and> endpoint info = full_url base ep
           \<and> parameters info
               = fst (convert_parameters_to_json_schema self (snd (extract_servers self c item op))
                       (merge_parameters (safe_get item ''parameters'' (PList []))
                          (safe_get op ''parameters'' (PList []))))"
  using assms
  by (auto simp: process_operation_def Let_def split: sum.splits prod.splits)

lemma convert_parameters_result:
  "fst (convert_parameters_to_json_schema self c params)
     = (let properties = fst (foldl apply_parameter ([], []) (fst (dereference_all self c params)));
            required = snd (foldl apply_parameter ([], []) (fst (dereference_all self c params)))
        in if properties = [] then PDict []
           else PDict [(PStr ''type'', PStr ''object''), (PStr ''properties'', PDict properties),
                       (PStr ''required'', PList required)])"
  by (cases params)
     (auto simp: convert_parameters_to_json_schema_def convert_parameters_loop_fold Let_def
        split: prod.splits)

lemma dict_get_Some_nonempty: "dict_get kvs k = Some v \<Longrightarrow> kvs \<noteq> []"
  by (cases kvs) auto

text \<open>
  C8. The list given to the conversion is the path-level parameters followed by the
  operation-level parameters, nothing removed. In the property map the entry of a name
  is that of the last parameter of the list that writes under this name: a later
  parameter overwrites an earlier one of the same name, so for a name declared at both
  levels the schema of the operation-level parameter is the one in the result.
\<close>

theorem parameters_last_write_wins:
  "merge_parameters path_parameters operation_parameters
     = list_or_empty path_parameters @ list_or_empty operation_parameters
   \<and> (process_operation self c (PStr ep) item m op = (Inr (info, tags), c')
        \<longrightarrow> parameters info
              = fst (convert_parameters_to_json_schema self (snd (extract_servers self c item op))
                      (merge_parameters (safe_get item ''parameters'' (PList []))
                         (safe_get op ''parameters'' (PList [])))))
   \<and> (\<forall>before d after nm prop.
         fst (dereference_all self c1 params) = before @ d # after
         \<and> parameter_entry d = Some (nm, prop)
         \<and> (\<forall>d' \<in> set after. \<forall>nm' prop'. parameter_entry d' = Some (nm', prop') \<longrightarrow> \<not> key_eq nm' nm)
        \<longrightarrow> (\<exists>P R. fst (convert_parameters_to_json_schema self c1 params)
                     = PDict [(PStr ''type'', PStr ''object''), (PStr ''properties'', PDict P),
                              (PStr ''required'', PList R)]
                  \<and> dict_get P nm = Some prop))"
proof (intro conjI allI impI)
  show "merge_parameters path_parameters operation_parameters
     = list_or_empty path_parameters @ list_or_empty operation_parameters"
    by (simp add: merge_parameters_def)
next
  assume "process_operation self c (PStr ep) item m op = (Inr (info, tags), c')"
  then show "parameters info
              = fst (convert_parameters_to_json_schema self (snd (extract_servers self c item op))
                      (merge_parameters (safe_get item ''parameters'' (PList []))
                         (safe_get op ''parameters'' (PList []))))"
    using process_operation_success by blast
next
  fix xs d ys nm p
  assume a: "fst (dereference_all self c1 params) = xs @ d # ys
         \<and> parameter_entry d = Some (nm, p)
         \<and> (\<forall>d' \<in> set ys. \<forall>nm' p'. parameter_entry d' = Some (nm', p') \<longrightarrow> \<not> key_eq nm' nm)"
  let ?acc = "foldl apply_parameter ([], []) (fst (dereference_all self c1 params))"
  have get: "dict_get (fst ?acc) nm = Some p"
    using a foldl_apply_parameter_last[of d nm p ys "([], [])" xs] by simp
  then have "fst ?acc \<noteq> []" by (rule dict_get_Some_nonempty)
  then have "fst (convert_parameters_to_json_schema self c1 params)
      = PDict [(PStr ''type'', PStr ''object''), (PStr ''properties'', PDict (fst ?acc)),
               (PStr ''required'', PList (snd ?acc))]"
    by (simp add: convert_parameters_result Let_def)
  then show "\<exists>P R. fst (convert_parameters_to_json_schema self c1 params)
                     = PDict [(PStr ''type'', PStr ''object''), (PStr ''properties'', PDict P),
                              (PStr ''required'', PList R)]
                  \<and> dict_get P nm = Some p"
    using get by blast
qed

lemmas eval_convert = convert_openapi_schema_to_json_schema.simps convert_body_def
  infer_schema_type_def safe_get_def dict_get_default_def has_key_def copy_if_truthy_def
  copy_constraints_def

lemma dereference_path_level_id:
  "dereference api_doc Map.empty path_level_id = (path_level_id, Map.empty)"
  by (simp add: dereference_def enough_fuel_def api_doc_def path_level_id_def numeral_eq_Suc)

lemma dereference_operation_level_id:
  "dereference api_doc Map.empty operation_level_id = (operation_level_id, Map.empty)"
  by (simp add: dereference_def enough_fuel_def api_doc_def operation_level_id_def numeral_eq_Suc)

lemma entry_operation_level_id:
  "parameter_entry operation_level_id = Some (PStr ''id'', PDict [(PStr ''type'', PStr ''integer'')])"
  by (simp add: parameter_entry_def operation_level_id_def eval_convert)

text \<open>The parameter \<^verbatim>\<open>id\<close> at both levels: the operation-level schema is in the result.\<close>

theorem parameters_last_write_wins_witness:
  "merge_parameters (PList [path_level_id]) (PList [operation_level_id])
     = [path_level_id, operation_level_id]
   \<and> (\<exists>P R. fst (convert_parameters_to_json_schema api_doc Map.empty
                    [path_level_id, operation_level_id])
            = PDict [(PStr ''type'', PStr ''object''), (PStr ''properties'', PDict P),
                     (PStr ''required'', PList R)]
         \<and> dict_get P (PStr ''id'') = Some (PDict [(PStr ''type'', PStr ''integer'')]))"
proof -
  have all: "fst (dereference_all api_doc Map.empty [path_level_id, operation_level_id])
      = [path_level_id] @ operation_level_id # []"
    by (simp add: dereference_path_level_id dereference_operation_level_id)
  have pre: "fst (dereference_all api_doc Map.empty [path_level_id, operation_level_id])
        = [path_level_id] @ operation_level_id # []
      \<and> parameter_entry operation_level_id
          = Some (PStr ''id'', PDict [(PStr ''type'', PStr ''integer'')])
      \<and> (\<forall>d' \<in> set []. \<forall>nm' prop'. parameter_entry d' = Some (nm', prop') \<longrightarrow> \<not> key_eq nm' (PStr ''id''))"
    using all entry_operation_level_id by simp
  note T = parameters_last_write_wins[where path_parameters = "PList [path_level_id]"
      and operation_parameters = "PList [operation_level_id]" and self = api_doc
      and ?c1.0 = Map.empty and params = "[path_level_id, operation_level_id]"]
  note last = T[THEN conjunct2, THEN conjunct2, THEN spec, THEN spec, THEN spec, THEN spec,
      THEN spec, THEN mp, OF pre]
  show ?thesis using T[THEN conjunct1] last by (simp add: list_or_empty_def)
qed

lemmas eval_strings = is_alnum_def lowercase_letters_def uppercase_letters_def upper_char_def
  lower_char_def rstrip_def full_url_def synthesized_id_def normalize_operation_id_def

lemma dereference_api_server:
  "dereference api_doc Map.empty (PDict [(PStr ''url'', PStr ''https://api.example.com'')])
     = (PDict [(PStr ''url'', PStr ''https://api.example.com'')], Map.empty)"
  by (simp add: dereference_def enough_fuel_def api_doc_def numeral_eq_Suc)

lemma users_servers:
  "extract_servers api_doc Map.empty users_path_item users_operation
     = ([\<lparr>server_url = PStr ''https://api.example.com'', server_description = PStr [],
           server_variables = PDict []\<rparr>], Map.empty)"
proof -
  have "select_servers api_doc users_path_item users_operation
      = [PDict [(PStr ''url'', PStr ''https://api.example.com'')]]"
    by (simp add: select_servers_def level_servers_def api_doc_def users_path_item_def
        users_operation_def safe_get_def dict_get_default_def)
  moreover have "base_url api_doc = None" by (simp add: api_doc_def)
  ultimately show ?thesis
    by (simp add: extract_servers_def dereference_api_server override_servers_def
        safe_get_def dict_get_default_def)
qed

lemma users_parameters:
  "convert_parameters_to_json_schema api_doc Map.empty [path_level_id, operation_level_id]
     = (PDict [(PStr ''type'', PStr ''object''),
               (PStr ''properties'', PDict [(PStr ''id'', PDict [(PStr ''type'', PStr ''integer'')])]),
               (PStr ''required'', PList [])],
        Map.empty)"
proof -
  have all: "dereference_all api_doc Map.empty [path_level_id, operation_level_id]
      = ([path_level_id, operation_level_id], Map.empty)"
    by (simp add: dereference_path_level_id dereference_operation_level_id)
  have acc: "foldl apply_parameter ([], []) [path_level_id, operation_level_id]
      = ([(PStr ''id'', PDict [(PStr ''type'', PStr ''integer'')])], [])"
    by (simp add: apply_parameter_def convert_parameter_def path_level_id_def
        operation_level_id_def eval_convert dict_setitem_def)
  show ?thesis
    by (simp only: convert_parameters_to_json_schema_def convert_parameters_loop_fold all acc
        fst_conv snd_conv) simp
qed

lemma users_operation_run:
  "process_operation api_doc Map.empty (PStr ''/v1/users/{id}'') users_path_item ''get''
     users_operation
   = (Inr (users_info, PList [PStr ''untagged'']), Map.empty)"
proof -
  have params: "merge_parameters (safe_get users_path_item ''parameters'' (PList []))
      (safe_get users_operation ''parameters'' (PList [])) = [path_level_id, operation_level_id]"
    by (simp add: merge_parameters_def list_or_empty_def users_path_item_def users_operation_def
        safe_get_def dict_get_default_def)
  have opid: "normalize_operation_id (safe_get users_operation ''operationId''
      (PStr (synthesized_id ''get'' ''/v1/users/{id}''))) = Inr ''getUser''"
    by (simp add: users_operation_def safe_get_def dict_get_default_def eval_strings)
  have rest: "safe_get users_operation ''requestBody'' (PDict []) = PDict []"
    "safe_get users_operation ''responses'' (PDict []) = PDict []"
    "safe_get users_operation ''tags'' (PList []) = PList []"
    "safe_get users_operation ''description'' (safe_get users_operation ''summary'' (PStr [])) = PStr []"
    by (simp_all add: users_operation_def safe_get_def dict_get_default_def)
  have base: "first_base_url [\<lparr>server_url = PStr ''https://api.example.com'',
      server_description = PStr [], server_variables = PDict []\<rparr>] = Inr ''https://api.example.com''"
    by (simp add: first_base_url_def rstrip_def)
  have empties: "convert_request_body_to_json_schema api_doc Map.empty (PDict []) = (PDict [], Map.empty)"
    "convert_response_to_json_schema api_doc Map.empty (PDict []) = (PDict [], Map.empty)"
    by (simp_all add: convert_request_body_to_json_schema_def convert_response_to_json_schema_def)
  have fields: "map upper_char ''get'' = ''GET''"
    "full_url ''https://api.example.com'' ''/v1/users/{id}'' = ''https://api.example.com/v1/users/{id}''"
    by (simp_all add: eval_strings)
  show ?thesis
    unfolding process_operation_def Let_def
    by (simp only: pyval.case sum.case prod.case params opid rest users_servers users_parameters
        base empties fields users_info_def) simp
qed

lemma extract_servers_nonempty: "fst (extract_servers self c item op) \<noteq> []"
  by (auto simp: extract_servers_def Let_def override_servers_nonempty split: prod.splits)

text \<open>
  C9. The endpoint of every descriptor is the url of the first resolved server with its
  trailing slashes stripped, followed by the raw path; with an empty url it is the raw
  path.
\<close>

theorem endpoint_url:
  assumes "process_operation self c (PStr ep) item m op = (Inr (info, tags), c')"
  shows "\<exists>srv rest u. fst (extract_servers self c item op) = srv # rest
           \<and> server_url srv = PStr u
           \<and> endpoint info = rstrip CHR ''/'' u @ ep
           \<and> (u = [] \<longrightarrow> endpoint info = ep)"
proof -
  obtain base where base: "first_base_url (fst (extract_servers self c item op)) = Inr base"
      "endpoint info = full_url base ep"
    using process_operation_success[OF assms] by blast
  obtain srv rest where srv: "fst (extract_servers self c item op) = srv # rest"
    using extract_servers_nonempty[of self c item op] by (cases "fst (extract_servers self c item op)") auto
  obtain u where u: "server_url srv = PStr u" "base = rstrip CHR ''/'' u"
    using base(1) srv by (auto simp: first_base_url_def split: pyval.splits)
  have "endpoint info = rstrip CHR ''/'' u @ ep" using base(2) u(2) by (simp add: full_url_def)
  moreover have "u = [] \<longrightarrow> endpoint info = ep" using base(2) u(2) by (simp add: full_url_def rstrip_def)
  ultimately show ?thesis using srv u(1) by blast
qed

theorem endpoint_url_witness:
  "endpoint users_info = ''https://api.example.com/v1/users/{id}''
   \<and> (\<exists>srv rest u. fst (extract_servers api_doc Map.empty users_path_item users_operation) = srv # rest
           \<and> server_url srv = PStr u
           \<and> endpoint users_info = rstrip CHR ''/'' u @ ''/v1/users/{id}'')"
  using endpoint_url[OF users_operation_run] by (auto simp: users_info_def)

text \<open>
  C10. The \<^verbatim>\<open>parameters\<close> field of every descriptor is the empty object or an object
  schema with a non-empty property map; it is the empty object when the parameter list
  is empty and when no dereferenced parameter has a truthy name.
\<close>

theorem parameters_field_shape:
  "(process_operation self c (PStr ep) item m op = (Inr (info, tags), c')
      \<longrightarrow> parameters info = PDict []
          \<or> (\<exists>P R. P \<noteq> []
                \<and> parameters info
                    = PDict [(PStr ''type'', PStr ''object''), (PStr ''properties'', PDict P),
                             (PStr ''required'', PList R)]))
   \<and> fst (convert_parameters_to_json_schema self c1 []) = PDict []
   \<and> ((\<forall>d \<in> set (fst (dereference_all self c1 params)).
          \<not> truthy (safe_get d ''name'' (PStr [])))
      \<longrightarrow> fst (convert_parameters_to_json_schema self c1 params) = PDict [])"
proof (intro conjI impI)
  assume "process_operation self c (PStr ep) item m op = (Inr (info, tags), c')"
  then obtain c2 ps where "parameters info = fst (convert_parameters_to_json_schema self c2 ps)"
    using process_operation_success by blast
  then show "parameters info = PDict []
          \<or> (\<exists>P R. P \<noteq> []
                \<and> parameters info
                    = PDict [(PStr ''type'', PStr ''object''), (PStr ''properties'', PDict P),
                             (PStr ''required'', PList R)])"
    by (simp add: convert_parameters_result Let_def)
next
  show "fst (convert_parameters_to_json_schema self c1 []) = PDict []"
    by (simp add: convert_parameters_to_json_schema_def)
next
  assume "\<forall>d \<in> set (fst (dereference_all self c1 params)).
          \<not> truthy (safe_get d ''name'' (PStr []))"
  then have "\<forall>d \<in> set (fst (dereference_all self c1 params)). parameter_entry d = None"
    by (simp add: parameter_entry_def Let_def)
  then have "fst (foldl apply_parameter ([], []) (fst (dereference_all self c1 params))) = []"
    by (rule foldl_apply_parameter_empty)
  then show "fst (convert_parameters_to_json_schema self c1 params) = PDict []"
    by (simp add: convert_parameters_result Let_def)
qed

theorem parameters_field_shape_witness:
  "parameters users_info
     = PDict [(PStr ''type'', PStr ''object''),
              (PStr ''properties'', PDict [(PStr ''id'', PDict [(PStr ''type'', PStr ''integer'')])]),
              (PStr ''required'', PList [])]
   \<and> (\<exists>P R. P \<noteq> []
          \<and> parameters users_info
              = PDict [(PStr ''type'', PStr ''object''), (PStr ''properties'', PDict P),
                       (PStr ''required'', PList R)])
   \<and> fst (convert_parameters_to_json_schema api_doc Map.empty [PDict [(PStr ''in'', PStr ''query'')]])
       = PDict []"
proof -
  note T = parameters_field_shape[where self = api_doc and c = Map.empty
      and ep = "''/v1/users/{id}''" and item = users_path_item and m = "''get''"
      and op = users_operation and info = users_info and tags = "PList [PStr ''untagged'']"
      and c' = Map.empty and ?c1.0 = Map.empty and params = "[PDict [(PStr ''in'', PStr ''query'')]]"]
  have d: "dereference api_doc Map.empty (PDict [(PStr ''in'', PStr ''query'')])
      = (PDict [(PStr ''in'', PStr ''query'')], Map.empty)"
    by (simp add: dereference_def enough_fuel_def api_doc_def numeral_eq_Suc)
  have noname: "\<forall>d \<in> set (fst (dereference_all api_doc Map.empty [PDict [(PStr ''in'', PStr ''query'')]])).
      \<not> truthy (safe_get d ''name'' (PStr []))"
    by (simp add: d safe_get_def dict_get_default_def)
  show ?thesis
    using T[THEN conjunct1, THEN mp, OF users_operation_run]
      T[THEN conjunct2, THEN conjunct2, THEN mp, OF noname]
    by (simp add: users_info_def)
qed

lemma process_methods_outcomes:
  "process_methods self c endpoint_key item methods acc
     = (acc @ successes (fst (methods_outcomes self c endpoint_key item methods)),
        snd (methods_outcomes self c endpoint_key item methods))"
proof (induction methods arbitrary: c acc)
  case Nil
  show ?case by simp
next
  case (Cons method_name methods)
  show ?case
  proof (cases "dict_get item (PStr method_name)")
    case None
    then show ?thesis using Cons by simp
  next
    case (Some operation)
    show ?thesis
    proof (cases "isinstance_dict operation")
      case False
      then show ?thesis using Some Cons by simp
    next
      case True
      obtain outcome c1 where step:
        "process_operation self c endpoint_key (PDict item) method_name operation = (outcome, c1)"
        by (cases "process_operation self c endpoint_key (PDict item) method_name operation")
      show ?thesis
        using Some True step Cons[of c1]
        by (cases outcome) (simp_all add: Let_def split: prod.splits)
    qed
  qed
qed

lemma process_paths_outcomes:
  "process_paths self c paths acc
     = (acc @ successes (fst (paths_outcomes self c paths)), snd (paths_outcomes self c paths))"
proof (induction paths arbitrary: c acc)
  case Nil
  show ?case by simp
next
  case (Cons a paths)
  obtain endpoint_key path_item where a: "a = (endpoint_key, path_item)" by (cases a)
  obtain d c1 where d: "dereference self c path_item = (d, c1)"
    by (cases "dereference self c path_item")
  have app: "successes (xs @ ys) = successes xs @ successes ys" for xs ys :: "(error + path_info \<times> pyval) list"
    by (induction xs rule: successes.induct) simp_all
  show ?case
  proof (cases d)
    case (PDict item)
    show ?thesis
      using a d PDict Cons
      by (simp add: process_methods_outcomes app Let_def split: prod.splits)
  qed (use a d Cons in simp_all)
qed

lemma successes_failures_length:
  "length (successes outcomes) + length (failures outcomes) = length outcomes"
  by (induction outcomes rule: successes.induct) simp_all

text \<open>
  C6. The result of \<^verbatim>\<open>extract_paths\<close> is the list of the descriptors of the operations
  that succeeded, in the order in which the operations are attempted; every operation
  is attempted, and each one that raises is missing from the result and nothing else is.
  In the loop, an operation that raises leaves the list as it was and the loop goes on
  with the next method; an operation that succeeds is appended; nothing already in the
  list is lost. \<^verbatim>\<open>extract_paths\<close> returns a list in every case.
\<close>

theorem failure_containment:
  "extract_paths self c
     = (successes (fst (operation_outcomes self c)), snd (operation_outcomes self c))
   \<and> length (fst (extract_paths self c)) + length (failures (fst (operation_outcomes self c)))
       = length (fst (operation_outcomes self c))
   \<and> (dict_get item (PStr method_name) = Some operation \<and> isinstance_dict operation
        \<and> process_operation self c endpoint_key (PDict item) method_name operation = (Inl e, c1)
      \<longrightarrow> process_methods self c endpoint_key item (method_name # methods) acc
            = process_methods self c1 endpoint_key item methods acc)
   \<and> (dict_get item (PStr method_name) = Some operation \<and> isinstance_dict operation
        \<and> process_operation self c endpoint_key (PDict item) method_name operation = (Inr entry, c1)
      \<longrightarrow> process_methods self c endpoint_key item (method_name # methods) acc
            = process_methods self c1 endpoint_key item methods (acc @ [entry]))
   \<and> (\<exists>new. fst (process_methods self c endpoint_key item methods acc) = acc @ new)"
proof -
  have whole: "extract_paths self c
     = (successes (fst (operation_outcomes self c)), snd (operation_outcomes self c))"
    by (simp add: extract_paths_def operation_outcomes_def process_paths_outcomes
        split: pyval.splits)
  then have count: "length (fst (extract_paths self c))
      + length (failures (fst (operation_outcomes self c)))
       = length (fst (operation_outcomes self c))"
    by (simp add: successes_failures_length)
  have keep: "\<exists>new. fst (process_methods self c endpoint_key item methods acc) = acc @ new"
    by (simp add: process_methods_outcomes)
  show ?thesis using whole count keep by simp
qed

lemma broken_operation_run:
  "process_operation api_doc Map.empty (PStr ''/v1/users/{id}'') users_path_item ''post''
     broken_operation
   = (Inl TypeError, Map.empty)"
  unfolding process_operation_def Let_def
  by (simp add: broken_operation_def safe_get_def dict_get_default_def normalize_operation_id_def)

lemma api_doc_outcomes:
  "operation_outcomes api_doc Map.empty
     = ([Inr (users_info, PList [PStr ''untagged'']), Inl TypeError], Map.empty)"
proof -
  let ?item = "[(PStr ''parameters'', PList [path_level_id]), (PStr ''get'', users_operation),
            (PStr ''post'', broken_operation)]"
  have item: "PDict ?item = users_path_item" by (simp add: users_path_item_def)
  have paths: "safe_get (spec api_doc) ''paths'' (PDict [])
      = PDict [(PStr ''/v1/users/{id}'', users_path_item)]"
    by (simp add: api_doc_def safe_get_def dict_get_default_def)
  have deref: "dereference api_doc Map.empty users_path_item = (PDict ?item, Map.empty)"
    by (simp add: dereference_def enough_fuel_def api_doc_def users_path_item_def
        users_operation_def broken_operation_def path_level_id_def operation_level_id_def
        numeral_eq_Suc)
  have dicts: "isinstance_dict users_operation" "isinstance_dict broken_operation"
    by (simp_all add: users_operation_def broken_operation_def)
  have methods: "methods_outcomes api_doc Map.empty (PStr ''/v1/users/{id}'') ?item http_methods
      = ([Inr (users_info, PList [PStr ''untagged'']), Inl TypeError], Map.empty)"
    by (simp add: http_methods_def item dicts users_operation_run broken_operation_run)
  show ?thesis
    by (simp only: operation_outcomes_def paths pyval.case paths_outcomes.simps deref
        prod.case Let_def methods append_Nil2)
qed

text \<open>
  The example document: the POST operation raises and is skipped, the GET operation is
  returned.
\<close>

theorem failure_containment_witness:
  "extract_paths api_doc Map.empty = ([(users_info, PList [PStr ''untagged''])], Map.empty)
   \<and> failures (fst (operation_outcomes api_doc Map.empty)) = [TypeError]
   \<and> process_methods api_doc Map.empty (PStr ''/v1/users/{id}'')
         [(PStr ''parameters'', PList [path_level_id]), (PStr ''get'', users_operation),
          (PStr ''post'', broken_operation)]
         [''post''] [(users_info, PList [PStr ''untagged''])]
       = ([(users_info, PList [PStr ''untagged''])], Map.empty)"
proof -
  let ?item = "[(PStr ''parameters'', PList [path_level_id]), (PStr ''get'', users_operation),
            (PStr ''post'', broken_operation)]"
  have pre: "dict_get ?item (PStr ''post'') = Some broken_operation
      \<and> isinstance_dict broken_operation
      \<and> process_operation api_doc Map.empty (PStr ''/v1/users/{id}'') (PDict ?item) ''post''
            broken_operation = (Inl TypeError, Map.empty)"
    using broken_operation_run by (simp add: users_path_item_def broken_operation_def)
  note T = failure_containment[where self = api_doc and c = Map.empty and item = ?item
      and method_name = "''post''" and operation = broken_operation
      and endpoint_key = "PStr ''/v1/users/{id}''" and e = TypeError and ?c1.0 = Map.empty
      and methods = "[]" and acc = "[(users_info, PList [PStr ''untagged''])]"]
  show ?thesis
    using T[THEN conjunct1] T[THEN conjunct2, THEN conjunct2, THEN conjunct1, THEN mp, OF pre]
    by (simp add: api_doc_outcomes)
qed

end
